theory Spec2Isabelle
  imports Complex_Main
begin

section \<open>JavaScript numbers\<close>

text \<open>
  The detector computes with JavaScript numbers. A finite number is modelled by the
  real value it denotes, \<open>Num r\<close>; the three special values are kept as constructors,
  because the code can produce them: reading a typed array outside its bounds gives
  \<open>undefined\<close>, which arithmetic turns into \<open>NaN\<close>, and a division by zero gives an
  infinity or \<open>NaN\<close>. Arithmetic on \<open>Num\<close> is exact: the rounding and the overflow
  of binary64 operations are not modelled, nor is the sign of zero (a division of a
  non-zero number by zero is given the sign of the dividend). A store into a
  \<open>Float32Array\<close> rounds to binary32; that rounding is modelled, by \<open>fround\<close> below.
\<close>

datatype jsnum = Num real | PInf | NInf | NaN

fun jneg :: "jsnum \<Rightarrow> jsnum" where
  "jneg (Num a) = Num (- a)"
| "jneg PInf = NInf"
| "jneg NInf = PInf"
| "jneg NaN = NaN"

fun jadd :: "jsnum \<Rightarrow> jsnum \<Rightarrow> jsnum" where
  "jadd (Num a) (Num b) = Num (a + b)"
| "jadd NaN _ = NaN"
| "jadd _ NaN = NaN"
| "jadd PInf NInf = NaN"
| "jadd NInf PInf = NaN"
| "jadd PInf _ = PInf"
| "jadd _ PInf = PInf"
| "jadd NInf _ = NInf"
| "jadd _ NInf = NInf"

definition jsub :: "jsnum \<Rightarrow> jsnum \<Rightarrow> jsnum" where
  "jsub a b = jadd a (jneg b)"

text \<open>The infinity with the sign of a real number.\<close>

definition jinf :: "real \<Rightarrow> jsnum" where
  "jinf s = (if 0 < s then PInf else NInf)"

fun jmul :: "jsnum \<Rightarrow> jsnum \<Rightarrow> jsnum" where
  "jmul (Num a) (Num b) = Num (a * b)"
| "jmul NaN _ = NaN"
| "jmul _ NaN = NaN"
| "jmul (Num a) PInf = (if a = 0 then NaN else jinf a)"
| "jmul (Num a) NInf = (if a = 0 then NaN else jinf (- a))"
| "jmul PInf (Num b) = (if b = 0 then NaN else jinf b)"
| "jmul NInf (Num b) = (if b = 0 then NaN else jinf (- b))"
| "jmul PInf PInf = PInf"
| "jmul NInf NInf = PInf"
| "jmul PInf NInf = NInf"
| "jmul NInf PInf = NInf"

fun jdiv :: "jsnum \<Rightarrow> jsnum \<Rightarrow> jsnum" where
  "jdiv (Num a) (Num b) =
     (if b \<noteq> 0 then Num (a / b) else if a = 0 then NaN else jinf a)"
| "jdiv NaN _ = NaN"
| "jdiv _ NaN = NaN"
| "jdiv (Num a) _ = Num 0"
| "jdiv PInf (Num b) = (if 0 \<le> b then PInf else NInf)"
| "jdiv NInf (Num b) = (if 0 \<le> b then NInf else PInf)"
| "jdiv _ _ = NaN"

text \<open>\<open>a < b\<close>: every comparison with \<open>NaN\<close> is false.\<close>

fun jlt :: "jsnum \<Rightarrow> jsnum \<Rightarrow> bool" where
  "jlt (Num a) (Num b) = (a < b)"
| "jlt NaN _ = False"
| "jlt _ NaN = False"
| "jlt NInf NInf = False"
| "jlt NInf _ = True"
| "jlt PInf _ = False"
| "jlt (Num a) PInf = True"
| "jlt (Num a) NInf = False"

text \<open>\<open>a \<le> b\<close>.\<close>

fun jle :: "jsnum \<Rightarrow> jsnum \<Rightarrow> bool" where
  "jle (Num a) (Num b) = (a \<le> b)"
| "jle NaN _ = False"
| "jle _ NaN = False"
| "jle NInf _ = True"
| "jle _ PInf = True"
| "jle PInf _ = False"
| "jle (Num a) NInf = False"

text \<open>\<open>Math.max\<close> of two numbers and \<open>Math.sqrt\<close>.\<close>

fun jmax :: "jsnum \<Rightarrow> jsnum \<Rightarrow> jsnum" where
  "jmax (Num a) (Num b) = Num (max a b)"
| "jmax NaN _ = NaN"
| "jmax _ NaN = NaN"
| "jmax PInf _ = PInf"
| "jmax _ PInf = PInf"
| "jmax NInf b = b"
| "jmax a NInf = a"

fun jsqrt :: "jsnum \<Rightarrow> jsnum" where
  "jsqrt (Num a) = (if a < 0 then NaN else Num (sqrt a))"
| "jsqrt PInf = PInf"
| "jsqrt NInf = NaN"
| "jsqrt NaN = NaN"

text \<open>\<open>Math.round\<close> on a finite number: the nearest integer, halves rounded up.\<close>

definition jround :: "real \<Rightarrow> int" where
  "jround r = \<lfloor>r + 1 / 2\<rfloor>"

subsection \<open>Stores into a Float32Array\<close>

text \<open>
  A \<open>Float32Array\<close> holds binary32 numbers: a store rounds the number to the nearest
  binary32 value, a tie going to the value with the even significand, and a number whose
  rounding reaches \<open>2 ^ 128\<close> becomes an infinity. \<open>bitLength n\<close> is the number of binary
  digits of \<open>n\<close>, and \<open>binade r\<close> the exponent \<open>e\<close> with \<open>2 ^ e \<le> \<bar>r\<bar> < 2 ^ (e + 1)\<close>,
  for \<open>r \<noteq> 0\<close>. Binary32 has 24 significant bits, so the values near \<open>r\<close> are the integer
  multiples of \<open>2 ^ (e - 23)\<close>; below \<open>2 ^ (- 126)\<close> (the subnormal range) the spacing
  stays \<open>2 ^ (- 149)\<close>.
\<close>

fun bitLength :: "nat \<Rightarrow> nat" where
  "bitLength n = (if n = 0 then 0 else Suc (bitLength (n div 2)))"

declare bitLength.simps [simp del]

definition binade :: "real \<Rightarrow> int" where
  "binade r =
     (if 1 \<le> \<bar>r\<bar> then int (bitLength (nat \<lfloor>\<bar>r\<bar>\<rfloor>)) - 1
      else - int (bitLength (nat (\<lceil>1 / \<bar>r\<bar>\<rceil> - 1))))"

definition pow2 :: "int \<Rightarrow> real" where
  "pow2 e = (if 0 \<le> e then 2 ^ nat e else 1 / 2 ^ nat (- e))"

text \<open>The nearest integer, a tie going to the even one.\<close>

definition roundEven :: "real \<Rightarrow> int" where
  "roundEven r =
     (let n = \<lfloor>r\<rfloor>;
          d = r - real_of_int n
      in if d < 1 / 2 then n
         else if 1 / 2 < d then n + 1
         else if even n then n else n + 1)"

definition fround_real :: "real \<Rightarrow> jsnum" where
  "fround_real r =
     (if r = 0 then Num 0
      else
        let e = max (binade r) (- 126);
            q = pow2 (e - 23);
            v = real_of_int (roundEven (r / q)) * q
        in if 2 ^ 128 \<le> \<bar>v\<bar> then jinf r else Num v)"

fun fround :: "jsnum \<Rightarrow> jsnum" where
  "fround (Num r) = fround_real r"
| "fround PInf = PInf"
| "fround NInf = NInf"
| "fround NaN = NaN"

section \<open>image.js\<close>

text \<open>
  A \<open>Float32Array\<close> is a list of numbers. Reading it at an index outside
  \<open>0 ..< length\<close> gives \<open>undefined\<close>, which every arithmetic operation of the callers
  converts to \<open>NaN\<close>; \<open>rd\<close> is that read. A store outside the bounds is ignored, as
  \<open>list_update\<close> does; a store inside them rounds to binary32. The dimensions of an image are natural numbers; the coordinates
  of a rectangle are integers, since every caller passes loop counters and results of
  \<open>Math.round\<close>.
\<close>

definition rd :: "jsnum list \<Rightarrow> int \<Rightarrow> jsnum" where
  "rd buf k = (if 0 \<le> k \<and> k < int (length buf) then buf ! nat k else NaN)"

subsection \<open>computeIntegralImage\<close>

text \<open>
  One iteration of the inner loop, at column \<open>x\<close> of row \<open>y\<close>. The state is the two
  running row sums, which are ordinary numbers, and the two tables, which are
  \<open>Float32Array\<close>s: what is stored in them is rounded.
\<close>

definition pixelStep ::
  "jsnum list \<Rightarrow> nat \<Rightarrow> nat \<Rightarrow> nat \<Rightarrow> jsnum \<times> jsnum \<times> jsnum list \<times> jsnum list
     \<Rightarrow> jsnum \<times> jsnum \<times> jsnum list \<times> jsnum list" where
  "pixelStep gray width y x st =
     (case st of (rowSum, rowSum2, ii, ii2) \<Rightarrow>
        let idx = y * width + x;
            val = rd gray (int idx);
            rowSum' = jadd rowSum val;
            rowSum2' = jadd rowSum2 (jmul val val)
        in (rowSum', rowSum2',
            ii[idx := fround (jadd rowSum'
                        (if y > 0 then rd ii (int ((y - 1) * width + x)) else Num 0))],
            ii2[idx := fround (jadd rowSum2'
                         (if y > 0 then rd ii2 (int ((y - 1) * width + x)) else Num 0))]))"

text \<open>One iteration of the outer loop: row \<open>y\<close>, with fresh row sums.\<close>

definition rowStep ::
  "jsnum list \<Rightarrow> nat \<Rightarrow> nat \<Rightarrow> jsnum list \<times> jsnum list \<Rightarrow> jsnum list \<times> jsnum list" where
  "rowStep gray width y tabs =
     (case fold (pixelStep gray width y) [0..<width] (Num 0, Num 0, fst tabs, snd tabs) of
        (rowSum, rowSum2, ii, ii2) \<Rightarrow> (ii, ii2))"

definition computeIntegralImage ::
  "jsnum list \<Rightarrow> nat \<Rightarrow> nat \<Rightarrow> jsnum list \<times> jsnum list" where
  "computeIntegralImage gray width height =
     fold (rowStep gray width) [0..<height]
       (replicate (width * height) (Num 0), replicate (width * height) (Num 0))"

subsection \<open>rectSum\<close>

definition rectSum :: "jsnum list \<Rightarrow> nat \<Rightarrow> int \<Rightarrow> int \<Rightarrow> int \<Rightarrow> int \<Rightarrow> jsnum" where
  "rectSum ii width x y w h =
     (if x < 0 \<or> y < 0 \<or> w \<le> 0 \<or> h \<le> 0 then Num 0
      else
        let x2 = x + w - 1;
            y2 = y + h - 1
        in if x2 < 0 \<or> y2 < 0 then Num 0
           else
             let D = rd ii (y2 * int width + x2);
                 C = (if x > 0 then rd ii (y2 * int width + (x - 1)) else Num 0);
                 B = (if y > 0 then rd ii ((y - 1) * int width + x2) else Num 0);
                 A = (if x > 0 \<and> y > 0 then rd ii ((y - 1) * int width + (x - 1)) else Num 0)
             in jadd (jsub (jsub D B) C) A)"

section \<open>haar.js\<close>

text \<open>
  The cascade as \<open>parseTrackingJsCascade\<close> builds it. The fields of a record are
  numbers of the cascade file. The fields \<open>x\<close>, \<open>y\<close>, \<open>width\<close>, \<open>height\<close> of a
  rectangle are written \<open>rect_x\<close>, \<open>rect_y\<close>, \<open>rect_width\<close>, \<open>rect_height\<close>, to leave
  the short names to variables. A feature is looked up by its index in the feature table;
  an index outside the table gives \<open>undefined\<close>, and reading \<open>rects\<close> of it throws a
  \<open>TypeError\<close>, which every caller lets through.
\<close>

record rect =
  rect_x :: real
  rect_y :: real
  rect_width :: real
  rect_height :: real
  weight :: real

record haarFeature =
  tilted :: real
  rects :: "rect list"

record weakClassifier =
  featureIndex :: nat
  threshold :: real
  alpha :: real
  beta :: real

record stage =
  stageThreshold :: real
  weakClassifiers :: "weakClassifier list"

record cascade =
  baseWindowWidth :: real
  baseWindowHeight :: real
  stages :: "stage list"

datatype error = TypeError

subsection \<open>evaluateFeature\<close>

definition evaluateFeature ::
  "haarFeature \<Rightarrow> jsnum list \<Rightarrow> nat \<Rightarrow> int \<Rightarrow> int \<Rightarrow> real \<Rightarrow> jsnum \<Rightarrow> jsnum \<Rightarrow> jsnum" where
  "evaluateFeature feature ii imageWidth wx wy scale invArea stdDev =
     (let value =
        fold (\<lambda>r value.
                let rx = wx + jround (rect_x r * scale);
                    ry = wy + jround (rect_y r * scale);
                    rw = jround (rect_width r * scale);
                    rh = jround (rect_height r * scale);
                    s = rectSum ii imageWidth rx ry rw rh
                in jadd value (jmul (Num (weight r)) s))
             (rects feature) (Num 0)
      in jdiv (jmul value invArea) stdDev)"

subsection \<open>evaluateStage\<close>

text \<open>
  The loop over the weak classifiers of a stage, with the running sum (\<open>sum\<close> in the
  source, \<open>sumv\<close> here). The thresholds and votes are finite numbers, so the sum is a
  real; the feature value can be \<open>NaN\<close>, and then the comparison is false.
\<close>

fun classifierLoop ::
  "haarFeature list \<Rightarrow> jsnum list \<Rightarrow> nat \<Rightarrow> int \<Rightarrow> int \<Rightarrow> real \<Rightarrow> jsnum \<Rightarrow> jsnum
     \<Rightarrow> weakClassifier list \<Rightarrow> real \<Rightarrow> error + real" where
  "classifierLoop features ii imageWidth wx wy scale invArea stdDev [] sumv = Inr sumv"
| "classifierLoop features ii imageWidth wx wy scale invArea stdDev (wc # wcs) sumv =
     (if featureIndex wc < length features then
        let feature = features ! featureIndex wc;
            fVal = evaluateFeature feature ii imageWidth wx wy scale invArea stdDev;
            h = (if jlt fVal (Num (threshold wc)) then alpha wc else beta wc)
        in classifierLoop features ii imageWidth wx wy scale invArea stdDev wcs (sumv + h)
      else Inl TypeError)"

definition evaluateStage ::
  "stage \<Rightarrow> haarFeature list \<Rightarrow> jsnum list \<Rightarrow> nat \<Rightarrow> int \<Rightarrow> int \<Rightarrow> real \<Rightarrow> jsnum \<Rightarrow> jsnum
     \<Rightarrow> error + bool" where
  "evaluateStage stage features ii imageWidth wx wy scale invArea stdDev =
     (case classifierLoop features ii imageWidth wx wy scale invArea stdDev
             (weakClassifiers stage) 0 of
        Inl e \<Rightarrow> Inl e
      | Inr sumv \<Rightarrow> Inr (sumv \<ge> stageThreshold stage))"

subsection \<open>evaluateCascade\<close>

text \<open>The statistics of the window, computed before the stages.\<close>

definition windowVariance :: "jsnum list \<Rightarrow> jsnum list \<Rightarrow> nat \<Rightarrow> int \<Rightarrow> int \<Rightarrow> int \<Rightarrow> int \<Rightarrow> jsnum" where
  "windowVariance ii ii2 imageWidth wx wy winW winH =
     (let mean = jdiv (rectSum ii imageWidth wx wy winW winH) (Num (real_of_int (winW * winH)));
          sqSum = rectSum ii2 imageWidth wx wy winW winH
      in jsub (jdiv sqSum (Num (real_of_int (winW * winH)))) (jmul mean mean))"

definition windowStdDev :: "jsnum list \<Rightarrow> jsnum list \<Rightarrow> nat \<Rightarrow> int \<Rightarrow> int \<Rightarrow> int \<Rightarrow> int \<Rightarrow> jsnum" where
  "windowStdDev ii ii2 imageWidth wx wy winW winH =
     jsqrt (jmax (windowVariance ii ii2 imageWidth wx wy winW winH) (Num 1))"

definition windowInvArea :: "int \<Rightarrow> int \<Rightarrow> jsnum" where
  "windowInvArea winW winH = jdiv (Num 1) (Num (real_of_int (winW * winH)))"

text \<open>
  The loop over the stages. Beside the result it returns how many times it has called
  \<open>evaluateStage\<close>; the count does not enter the result.
\<close>

fun stageLoop ::
  "haarFeature list \<Rightarrow> jsnum list \<Rightarrow> nat \<Rightarrow> int \<Rightarrow> int \<Rightarrow> real \<Rightarrow> jsnum \<Rightarrow> jsnum
     \<Rightarrow> stage list \<Rightarrow> (error + bool) \<times> nat" where
  "stageLoop features ii imageWidth wx wy scale invArea stdDev [] = (Inr True, 0)"
| "stageLoop features ii imageWidth wx wy scale invArea stdDev (stage # rest) =
     (case evaluateStage stage features ii imageWidth wx wy scale invArea stdDev of
        Inl e \<Rightarrow> (Inl e, 1)
      | Inr passed \<Rightarrow>
          if \<not> passed then (Inr False, 1)
          else (case stageLoop features ii imageWidth wx wy scale invArea stdDev rest of
                  (res, n) \<Rightarrow> (res, Suc n)))"

definition evaluateCascade ::
  "cascade \<Rightarrow> haarFeature list \<Rightarrow> jsnum list \<Rightarrow> jsnum list \<Rightarrow> nat \<Rightarrow> int \<Rightarrow> int \<Rightarrow> real
     \<Rightarrow> int \<Rightarrow> int \<Rightarrow> error + bool" where
  "evaluateCascade cascade features ii ii2 imageWidth wx wy scale winW winH =
     (let stdDev = windowStdDev ii ii2 imageWidth wx wy winW winH;
          invArea = windowInvArea winW winH
      in fst (stageLoop features ii imageWidth wx wy scale invArea stdDev (stages cascade)))"

definition stagesEvaluated ::
  "cascade \<Rightarrow> haarFeature list \<Rightarrow> jsnum list \<Rightarrow> jsnum list \<Rightarrow> nat \<Rightarrow> int \<Rightarrow> int \<Rightarrow> real
     \<Rightarrow> int \<Rightarrow> int \<Rightarrow> nat" where
  "stagesEvaluated cascade features ii ii2 imageWidth wx wy scale winW winH =
     (let stdDev = windowStdDev ii ii2 imageWidth wx wy winW winH;
          invArea = windowInvArea winW winH
      in snd (stageLoop features ii imageWidth wx wy scale invArea stdDev (stages cascade)))"

section \<open>detector.js\<close>

text \<open>
  A detection \<open>{x, y, w, h, scale}\<close>; its fields are written \<open>det_x\<close>, ..., \<open>det_scale\<close>.
  Window positions and sizes are integers: the positions count up from 0 by an integer
  step and the sizes are results of \<open>Math.round\<close>.
\<close>

record detection =
  det_x :: int
  det_y :: int
  det_w :: int
  det_h :: int
  det_scale :: real

text \<open>
  The options object, with fields \<open>scaleFactor\<close>, \<open>minSize\<close>, \<open>maxSize\<close>: a field that
  is absent (\<open>None\<close>) takes its default. \<open>scaleFactor\<close> and \<open>minSize\<close> are finite
  numbers; \<open>maxSize\<close> is any number, \<open>Infinity\<close> included (no upper limit on the
  window).
\<close>

record options =
  opt_scaleFactor :: "real option"
  opt_minSize :: "real option"
  opt_maxSize :: "jsnum option"

subsection \<open>computeIOU and nonMaximumSuppression\<close>

definition computeIOU :: "detection \<Rightarrow> detection \<Rightarrow> real" where
  "computeIOU boxA boxB =
     (let xA = max (det_x boxA) (det_x boxB);
          yA = max (det_y boxA) (det_y boxB);
          xB = min (det_x boxA + det_w boxA) (det_x boxB + det_w boxB);
          yB = min (det_y boxA + det_h boxA) (det_y boxB + det_h boxB);
          interArea = max 0 (xB - xA) * max 0 (yB - yA)
      in if interArea = 0 then 0
         else
           let boxAArea = det_w boxA * det_h boxA;
               boxBArea = det_w boxB * det_h boxB
           in real_of_int interArea / real_of_int (boxAArea + boxBArea - interArea))"

text \<open>
  The inner loop of the suppression, over the indices \<open>j\<close> after \<open>i\<close>, and the outer
  loop over all indices; \<open>suppressed\<close> is the set of suppressed indices and \<open>keep\<close>
  the list of kept detections.
\<close>

fun suppressLoop :: "detection list \<Rightarrow> real \<Rightarrow> nat \<Rightarrow> nat list \<Rightarrow> nat set \<Rightarrow> nat set" where
  "suppressLoop detections overlapThreshold i [] suppressed = suppressed"
| "suppressLoop detections overlapThreshold i (j # js) suppressed =
     (if j \<in> suppressed then suppressLoop detections overlapThreshold i js suppressed
      else
        let iou = computeIOU (detections ! i) (detections ! j)
        in if iou > overlapThreshold
           then suppressLoop detections overlapThreshold i js (insert j suppressed)
           else suppressLoop detections overlapThreshold i js suppressed)"

fun keepLoop ::
  "detection list \<Rightarrow> real \<Rightarrow> nat list \<Rightarrow> detection list \<Rightarrow> nat set \<Rightarrow> detection list" where
  "keepLoop detections overlapThreshold [] keep suppressed = keep"
| "keepLoop detections overlapThreshold (i # is) keep suppressed =
     (if i \<in> suppressed then keepLoop detections overlapThreshold is keep suppressed
      else keepLoop detections overlapThreshold is (keep @ [detections ! i])
             (suppressLoop detections overlapThreshold i
                [i + 1..<length detections] suppressed))"

text \<open>
  \<open>Array.prototype.sort\<close> is stable; with the comparator of the source it orders by
  area, largest first. \<open>sort_key\<close> is a stable sort.
\<close>

definition sortByArea :: "detection list \<Rightarrow> detection list" where
  "sortByArea detections = sort_key (\<lambda>d. - (det_w d * det_h d)) detections"

definition nonMaximumSuppression :: "detection list \<Rightarrow> real \<Rightarrow> detection list" where
  "nonMaximumSuppression detections overlapThreshold =
     (if length detections = 0 then []
      else
        let sorted = sortByArea detections
        in keepLoop sorted overlapThreshold [0..<length sorted] [] {})"

subsection \<open>detectFaces\<close>

definition windowStep :: "int \<Rightarrow> int" where
  "windowStep winW = max 2 \<lfloor>0.1 * real_of_int winW\<rfloor>"

text \<open>The loop over \<open>x\<close> at row \<open>y\<close>, and the loop over \<open>y\<close>, at one scale.\<close>

function scanCols ::
  "cascade \<Rightarrow> haarFeature list \<Rightarrow> jsnum list \<Rightarrow> jsnum list \<Rightarrow> nat \<Rightarrow> real \<Rightarrow> int \<Rightarrow> int
     \<Rightarrow> int \<Rightarrow> int \<Rightarrow> detection list \<Rightarrow> error + detection list" where
  "scanCols cascade features ii ii2 width scale winW winH y x detections =
     (if x \<le> int width - winW then
        (case evaluateCascade cascade features ii ii2 width x y scale winW winH of
           Inl e \<Rightarrow> Inl e
         | Inr isFace \<Rightarrow>
             scanCols cascade features ii ii2 width scale winW winH y (x + windowStep winW)
               (if isFace
                then detections @
                  [\<lparr>det_x = x, det_y = y, det_w = winW, det_h = winH, det_scale = scale\<rparr>]
                else detections))
      else Inr detections)"
  by pat_completeness auto
termination
  by (relation "measure (\<lambda>(cascade, features, ii, ii2, width, scale, winW, winH, y, x, detections).
        nat (int width - winW - x + 1))")
     (auto simp: windowStep_def)

declare scanCols.simps [simp del]

function scanRows ::
  "cascade \<Rightarrow> haarFeature list \<Rightarrow> jsnum list \<Rightarrow> jsnum list \<Rightarrow> nat \<Rightarrow> nat \<Rightarrow> real \<Rightarrow> int \<Rightarrow> int
     \<Rightarrow> int \<Rightarrow> detection list \<Rightarrow> error + detection list" where
  "scanRows cascade features ii ii2 width height scale winW winH y detections =
     (if y \<le> int height - winH then
        (case scanCols cascade features ii ii2 width scale winW winH y 0 detections of
           Inl e \<Rightarrow> Inl e
         | Inr detections' \<Rightarrow>
             scanRows cascade features ii ii2 width height scale winW winH
               (y + windowStep winW) detections')
      else Inr detections)"
  by pat_completeness auto
termination
  by (relation "measure (\<lambda>(cascade, features, ii, ii2, width, height, scale, winW, winH, y, detections).
        nat (int height - winH - y + 1))")
     (auto simp: windowStep_def)

declare scanRows.simps [simp del]

text \<open>
  The loop over the scales. It returns only when a scale exceeds \<open>maxSize\<close>; a run that
  never does has the value \<open>None\<close>. The scale is kept as a real number: it starts at 1
  and is multiplied by a finite factor. (In binary64 a scale that grows without bound
  ends as \<open>Infinity\<close>; by then the window is larger than any image and nothing is
  scanned, and the test against \<open>maxSize\<close> has the same outcome as for a real number
  above every finite \<open>maxSize\<close>.)
\<close>

partial_function (option) scaleLoop ::
  "cascade \<Rightarrow> haarFeature list \<Rightarrow> jsnum list \<Rightarrow> jsnum list \<Rightarrow> nat \<Rightarrow> nat \<Rightarrow> real \<Rightarrow> real \<Rightarrow> jsnum
     \<Rightarrow> real \<Rightarrow> detection list \<Rightarrow> (error + detection list) option" where
  "scaleLoop cascade features ii ii2 width height scaleFactor minSize maxSize scale detections =
     (if jle (Num (baseWindowWidth cascade * scale)) maxSize
         \<and> jle (Num (baseWindowHeight cascade * scale)) maxSize
      then
        if real_of_int (jround (baseWindowWidth cascade * scale)) < minSize
           \<or> real_of_int (jround (baseWindowHeight cascade * scale)) < minSize
        then scaleLoop cascade features ii ii2 width height scaleFactor minSize maxSize
               (scale * scaleFactor) detections
        else
          (case scanRows cascade features ii ii2 width height scale
                  (jround (baseWindowWidth cascade * scale))
                  (jround (baseWindowHeight cascade * scale)) 0 detections of
             Inl e \<Rightarrow> Some (Inl e)
           | Inr detections' \<Rightarrow>
               scaleLoop cascade features ii ii2 width height scaleFactor minSize maxSize
                 (scale * scaleFactor) detections')
      else Some (Inr detections))"

definition detectFaces ::
  "jsnum list \<Rightarrow> nat \<Rightarrow> nat \<Rightarrow> cascade \<Rightarrow> haarFeature list \<Rightarrow> options
     \<Rightarrow> (error + detection list) option" where
  "detectFaces gray width height cascade features opts =
     (let scaleFactor = (case opt_scaleFactor opts of None \<Rightarrow> 1.2 | Some v \<Rightarrow> v);
          minSize = (case opt_minSize opts of
                       None \<Rightarrow> (if baseWindowWidth cascade \<noteq> 0 then baseWindowWidth cascade else 24)
                     | Some v \<Rightarrow> v);
          maxSize = (case opt_maxSize opts of
                       None \<Rightarrow> Num (real (min width height))
                     | Some v \<Rightarrow> v);
          tabs = computeIntegralImage gray width height
      in if baseWindowWidth cascade = 0 \<or> baseWindowHeight cascade = 0 then Some (Inr [])
         else
           (case scaleLoop cascade features (fst tabs) (snd tabs) width height
                   scaleFactor minSize maxSize 1 [] of
              None \<Rightarrow> None
            | Some (Inl e) \<Rightarrow> Some (Inl e)
            | Some (Inr detections) \<Rightarrow> Some (Inr (nonMaximumSuppression detections 0.3))))"

section \<open>main.js\<close>

definition calculateIoU :: "detection \<Rightarrow> detection \<Rightarrow> real" where
  "calculateIoU boxA boxB =
     (let x1 = max (det_x boxA) (det_x boxB);
          y1 = max (det_y boxA) (det_y boxB);
          x2 = min (det_x boxA + det_w boxA) (det_x boxB + det_w boxB);
          y2 = min (det_y boxA + det_h boxA) (det_y boxB + det_h boxB);
          intersectionWidth = max 0 (x2 - x1);
          intersectionHeight = max 0 (y2 - y1);
          intersectionArea = intersectionWidth * intersectionHeight
      in if intersectionArea \<le> 0 then 0
         else
           let areaA = det_w boxA * det_h boxA;
               areaB = det_w boxB * det_h boxB;
               unionArea = areaA + areaB - intersectionArea
           in real_of_int intersectionArea / real_of_int unionArea)"

text \<open>The callback of \<open>reduce\<close>, and the body of the loop over the detections.\<close>

definition pickLarger :: "detection \<Rightarrow> detection \<Rightarrow> detection" where
  "pickLarger current largest =
     (if det_w current * det_h current > det_w largest * det_h largest then current else largest)"

definition matchStep :: "detection \<Rightarrow> detection \<Rightarrow> detection option \<times> real \<Rightarrow> detection option \<times> real" where
  "matchStep previousBox detection st =
     (case st of (bestMatch, bestScore) \<Rightarrow>
        let score = calculateIoU previousBox detection
        in if score > bestScore then (Some detection, score) else (bestMatch, bestScore))"

text \<open>
  \<open>null\<close> is \<open>None\<close>. \<open>reduce\<close> without an initial value starts from the first
  element; it is only reached with a non-empty list.
\<close>

fun selectBestFace :: "detection list \<Rightarrow> detection option \<Rightarrow> detection option" where
  "selectBestFace [] previousBox = None"
| "selectBestFace (d # ds) None = Some (fold pickLarger ds d)"
| "selectBestFace (d # ds) (Some previousBox) =
     (case fold (matchStep previousBox) (d # ds) (None, 0) of
        (bestMatch, bestScore) \<Rightarrow>
          if bestMatch = None \<or> bestScore < 0.1 then Some (fold pickLarger ds d)
          else bestMatch)"

section \<open>Notions used to state the properties\<close>

subsection \<open>Integral tables\<close>

text \<open>
  \<open>areaSum f width y x\<close> is the sum of \<open>f\<close> over the cells of the rows before \<open>y\<close> and
  the columns before \<open>x\<close> of a row-major image. The two invariants say how much of a
  table the loops of \<open>computeIntegralImage\<close> have filled: \<open>rows_inv\<close> after whole
  rows, \<open>chan_inv\<close> inside row \<open>y\<close>, with the running row sum.
\<close>

definition areaSum :: "(nat \<Rightarrow> real) \<Rightarrow> nat \<Rightarrow> nat \<Rightarrow> nat \<Rightarrow> real" where
  "areaSum f width y x = (\<Sum>b<y. \<Sum>a<x. f (b * width + a))"

definition chan_inv :: "(nat \<Rightarrow> real) \<Rightarrow> nat \<Rightarrow> nat \<Rightarrow> nat \<Rightarrow> nat \<Rightarrow> jsnum \<Rightarrow> jsnum list \<Rightarrow> bool" where
  "chan_inv f width height y x rs tbl \<longleftrightarrow>
     length tbl = width * height \<and>
     rs = Num (\<Sum>a<x. f (y * width + a)) \<and>
     (\<forall>a<x. tbl ! (y * width + a) = Num (areaSum f width (Suc y) (Suc a))) \<and>
     (\<forall>j<y. \<forall>a<width. tbl ! (j * width + a) = Num (areaSum f width (Suc j) (Suc a)))"

definition rows_inv :: "(nat \<Rightarrow> real) \<Rightarrow> nat \<Rightarrow> nat \<Rightarrow> nat \<Rightarrow> jsnum list \<Rightarrow> bool" where
  "rows_inv f width height y tbl \<longleftrightarrow>
     length tbl = width * height \<and>
     (\<forall>j<y. \<forall>a<width. tbl ! (j * width + a) = Num (areaSum f width (Suc j) (Suc a)))"

text \<open>
  The sums a table must hold can be stored without rounding when each of them is a
  binary32 value, that is, a fixed point of \<open>fround_real\<close>. \<open>isFinite\<close> is
  \<open>Number.isFinite\<close>.
\<close>

definition float32_sums :: "(nat \<Rightarrow> real) \<Rightarrow> nat \<Rightarrow> nat \<Rightarrow> bool" where
  "float32_sums f width height \<longleftrightarrow>
     (\<forall>y<height. \<forall>x<width.
        fround_real (areaSum f width (Suc y) (Suc x)) = Num (areaSum f width (Suc y) (Suc x)))"

fun isFinite :: "jsnum \<Rightarrow> bool" where
  "isFinite (Num a) = True"
| "isFinite PInf = False"
| "isFinite NInf = False"
| "isFinite NaN = False"

subsection \<open>Window statistics\<close>

text \<open>
  The variance of a window from the sum \<open>s\<close> of its intensities, the sum \<open>q\<close> of their
  squares and its area: the mean of the squares minus the square of the mean.
\<close>

definition varianceOf :: "real \<Rightarrow> real \<Rightarrow> real \<Rightarrow> real" where
  "varianceOf s q area = q / area - (s / area) * (s / area)"

subsection \<open>Votes of weak classifiers\<close>

text \<open>The value a weak classifier contributes to the sum of its stage.\<close>

definition vote :: "haarFeature list \<Rightarrow> jsnum list \<Rightarrow> nat \<Rightarrow> int \<Rightarrow> int \<Rightarrow> real \<Rightarrow> jsnum \<Rightarrow> jsnum \<Rightarrow> weakClassifier \<Rightarrow> real" where
  "vote features ii imageWidth wx wy scale invArea stdDev wc =
     (if jlt (evaluateFeature (features ! featureIndex wc) ii imageWidth wx wy scale invArea stdDev)
             (Num (threshold wc))
      then alpha wc else beta wc)"

subsection \<open>The scan\<close>

text \<open>
  A cascade is well formed for a feature table when every weak classifier refers to a
  feature of the table; then no evaluation throws. \<open>passes\<close> says that the window at
  \<open>(x, y)\<close> passes the cascade, and \<open>mkDetection\<close> is the detection pushed for it.
  \<open>gridOrigins step limit\<close> lists the window origins \<open>0, step, 2 * step, ...\<close> up to
  \<open>limit\<close>. \<open>validDetection\<close> collects what Claim C10 says of a returned detection.
\<close>

definition cascade_wf :: "cascade \<Rightarrow> haarFeature list \<Rightarrow> bool" where
  "cascade_wf cascade features \<longleftrightarrow>
     list_all (\<lambda>st. list_all (\<lambda>wc. featureIndex wc < length features) (weakClassifiers st))
       (stages cascade)"

definition mkDetection :: "real \<Rightarrow> int \<Rightarrow> int \<Rightarrow> int \<Rightarrow> int \<Rightarrow> detection" where
  "mkDetection scale winW winH y x =
     \<lparr>det_x = x, det_y = y, det_w = winW, det_h = winH, det_scale = scale\<rparr>"

definition passes :: "cascade \<Rightarrow> haarFeature list \<Rightarrow> jsnum list \<Rightarrow> jsnum list \<Rightarrow> nat \<Rightarrow> real \<Rightarrow> int \<Rightarrow> int \<Rightarrow> int \<Rightarrow> int \<Rightarrow> bool" where
  "passes cascade features ii ii2 width scale winW winH y x \<longleftrightarrow>
     evaluateCascade cascade features ii ii2 width x y scale winW winH = Inr True"

definition gridCount :: "int \<Rightarrow> int \<Rightarrow> nat" where
  "gridCount step limit = (if 0 \<le> limit then nat (limit div step) + 1 else 0)"

definition gridOrigins :: "int \<Rightarrow> int \<Rightarrow> int list" where
  "gridOrigins step limit = map (\<lambda>k. int k * step) [0..<gridCount step limit]"


subsection \<open>Suppression, as the specification words it\<close>

text \<open>
  The greedy walk of the specification: keep the first detection, drop every later one
  whose IoU with it exceeds the threshold, and go on with the rest.
\<close>

fun greedyKeep :: "real \<Rightarrow> detection list \<Rightarrow> detection list" where
  "greedyKeep overlapThreshold [] = []"
| "greedyKeep overlapThreshold (d # ds) =
     d # greedyKeep overlapThreshold (filter (\<lambda>e. \<not> computeIOU d e > overlapThreshold) ds)"

subsection \<open>The options in force\<close>

text \<open>The values \<open>detectFaces\<close> takes from the options object, defaults included.\<close>

definition scaleFactorOf :: "options \<Rightarrow> real" where
  "scaleFactorOf opts = (case opt_scaleFactor opts of None \<Rightarrow> 1.2 | Some v \<Rightarrow> v)"

definition minSizeOf :: "cascade \<Rightarrow> options \<Rightarrow> real" where
  "minSizeOf cascade opts =
     (case opt_minSize opts of
        None \<Rightarrow> (if baseWindowWidth cascade \<noteq> 0 then baseWindowWidth cascade else 24)
      | Some v \<Rightarrow> v)"

definition maxSizeOf :: "nat \<Rightarrow> nat \<Rightarrow> options \<Rightarrow> jsnum" where
  "maxSizeOf width height opts =
     (case opt_maxSize opts of None \<Rightarrow> Num (real (min width height)) | Some v \<Rightarrow> v)"

subsection \<open>Fixtures\<close>

text \<open>
  Small cascades and features, used to run the theorems on concrete inputs. The feature
  without rectangles evaluates to 0 on every window with finite statistics. The stage
  \<open>rejectingStage\<close> is the stage of Scenario A; \<open>brokenStage\<close> refers to a feature that
  is not in the table, so evaluating it throws.
\<close>

definition rejectingStage :: stage where
  "rejectingStage = \<lparr>stageThreshold = 1,
     weakClassifiers = [\<lparr>featureIndex = 0, threshold = 1 / 2, alpha = 0, beta = 1\<rparr>]\<rparr>"

definition brokenStage :: stage where
  "brokenStage = \<lparr>stageThreshold = 0,
     weakClassifiers = [\<lparr>featureIndex = 7, threshold = 0, alpha = 0, beta = 0\<rparr>]\<rparr>"

definition emptyFeature :: haarFeature where
  "emptyFeature = \<lparr>tilted = 0, rects = []\<rparr>"

text \<open>
  A feature with one rectangle, the lower right cell of a 2 by 2 base window. At scale 1.5
  the window is 3 by 3 and the rectangle, rounded, is the 2 by 2 square at \<open>(2, 2)\<close>.
\<close>

definition cornerFeature :: haarFeature where
  "cornerFeature = \<lparr>tilted = 0,
     rects = [\<lparr>rect_x = 1, rect_y = 1, rect_width = 1, rect_height = 1, weight = 1\<rparr>]\<rparr>"

text \<open>
  The integral tables of the flat 2 by 2 image of intensity 5, and a cascade whose second
  stage would throw if it were evaluated.
\<close>

definition guardedCascade :: cascade where
  "guardedCascade = \<lparr>baseWindowWidth = 2, baseWindowHeight = 2,
     stages = [rejectingStage, brokenStage]\<rparr>"

definition flatSums :: "jsnum list" where
  "flatSums = [Num 5, Num 10, Num 10, Num 20]"

definition flatSquares :: "jsnum list" where
  "flatSquares = [Num 25, Num 50, Num 50, Num 100]"

text \<open>The detections of Scenario B and of Scenario C.\<close>

definition firstBoxB :: detection where
  "firstBoxB = \<lparr>det_x = 0, det_y = 0, det_w = 100, det_h = 100, det_scale = 1\<rparr>"

definition secondBoxB :: detection where
  "secondBoxB = \<lparr>det_x = 10, det_y = 10, det_w = 100, det_h = 100, det_scale = 1\<rparr>"

definition previousBoxC :: detection where
  "previousBoxC = \<lparr>det_x = 50, det_y = 50, det_w = 60, det_h = 60, det_scale = 1\<rparr>"

definition nearBoxC :: detection where
  "nearBoxC = \<lparr>det_x = 52, det_y = 51, det_w = 58, det_h = 59, det_scale = 1\<rparr>"

definition farBoxC :: detection where
  "farBoxC = \<lparr>det_x = 500, det_y = 500, det_w = 200, det_h = 200, det_scale = 1\<rparr>"

definition distantBoxB :: detection where
  "distantBoxB = \<lparr>det_x = 300, det_y = 300, det_w = 50, det_h = 50, det_scale = 1\<rparr>"

definition cornerBox :: detection where
  "cornerBox = \<lparr>det_x = 0, det_y = 0, det_w = 10, det_h = 10, det_scale = 1\<rparr>"

text \<open>
  Inputs of \<open>detectFaces\<close>: a flat 2 by 2 image, a cascade without stages (every
  window passes), the cascade of Scenario A, and option objects, three of them invalid by
  the specification (minimum above maximum, twice, and a scale factor of 1).
\<close>

definition openCascade :: cascade where
  "openCascade = \<lparr>baseWindowWidth = 2, baseWindowHeight = 2, stages = []\<rparr>"


definition flatImage :: "jsnum list" where
  "flatImage = [Num 5, Num 5, Num 5, Num 5]"

definition fullWindow :: detection where
  "fullWindow = \<lparr>det_x = 0, det_y = 0, det_w = 2, det_h = 2, det_scale = 1\<rparr>"



definition invertedOptions :: options where
  "invertedOptions = \<lparr>opt_scaleFactor = Some 2, opt_minSize = Some 5, opt_maxSize = Some (Num 3)\<rparr>"

definition fractionalCascade :: cascade where
  "fractionalCascade = \<lparr>baseWindowWidth = 8 / 5, baseWindowHeight = 8 / 5, stages = []\<rparr>"

definition fractionalOptions :: options where
  "fractionalOptions =
     \<lparr>opt_scaleFactor = Some 2, opt_minSize = Some (9 / 5), opt_maxSize = Some (Num (17 / 10))\<rparr>"

definition constantOptions :: options where
  "constantOptions = \<lparr>opt_scaleFactor = Some 1, opt_minSize = None, opt_maxSize = None\<rparr>"



definition tinyCascade :: cascade where
  "tinyCascade = \<lparr>baseWindowWidth = 3 / 10, baseWindowHeight = 3 / 10, stages = [rejectingStage]\<rparr>"

definition tinyOptions :: options where
  "tinyOptions = \<lparr>opt_scaleFactor = Some 2, opt_minSize = Some 0, opt_maxSize = Some (Num (1 / 2))\<rparr>"

definition emptyWindow :: "int \<Rightarrow> int \<Rightarrow> detection" where
  "emptyWindow x y = \<lparr>det_x = x, det_y = y, det_w = 0, det_h = 0, det_scale = 1\<rparr>"


section \<open>Rounding to binary32\<close>

lemma bitLength_le: "n < 2 ^ k \<Longrightarrow> bitLength n \<le> k"
proof (induction n arbitrary: k rule: bitLength.induct)
  case (1 n)
  show ?case
  proof (cases "n = 0")
    case True
    then show ?thesis by (simp add: bitLength.simps)
  next
    case False
    with 1(2) obtain k' where k: "k = Suc k'" by (cases k) auto
    with 1(2) have "n div 2 < 2 ^ k'" by auto
    from 1(1)[OF False this] show ?thesis using False k
      by (subst bitLength.simps) simp
  qed
qed

lemma bitLength_pos: "0 < n \<Longrightarrow> 0 < bitLength n"
  by (subst bitLength.simps) simp

lemma roundEven_of_int: "roundEven (real_of_int m) = m"
  by (simp add: roundEven_def)

text \<open>A natural number below \<open>2 ^ 24\<close> has at most 24 binary digits: storing it is exact.\<close>

lemma fround_real_small_nat:
  assumes "n < 2 ^ 24"
  shows "fround_real (real n) = Num (real n)"
proof (cases "n = 0")
  case True
  then show ?thesis by (simp add: fround_real_def)
next
  case False
  define k where "k = bitLength n"
  have k: "0 < k" "k \<le> 24"
    using False assms by (auto simp: k_def bitLength_pos bitLength_le)
  have b: "binade (real n) = int k - 1"
    using False by (simp add: binade_def k_def)
  have e: "max (int k - 1) (- 126) = int k - 1" using k by simp
  have q: "pow2 (int k - 1 - 23) = 1 / 2 ^ (24 - k)"
  proof (cases "k = 24")
    case True
    then show ?thesis by (simp add: pow2_def)
  next
    case False
    with k have "nat (- (int k - 1 - 23)) = 24 - k" by simp
    with False k show ?thesis by (simp add: pow2_def)
  qed
  have r: "real n / (1 / 2 ^ (24 - k)) = real_of_int (int (n * 2 ^ (24 - k)))" by simp
  have v: "real_of_int (roundEven (real n / (1 / 2 ^ (24 - k)))) * (1 / 2 ^ (24 - k)) = real n"
    unfolding r roundEven_of_int by simp
  have small: "\<not> (2 :: real) ^ 128 \<le> \<bar>real n\<bar>"
  proof -
    have "real n < 2 ^ 24" using assms by (metis of_nat_less_iff of_nat_numeral of_nat_power)
    also have "\<dots> \<le> (2 :: real) ^ 128" by simp
    finally show ?thesis by simp
  qed
  have nz: "real n \<noteq> 0" using False by simp
  have "fround_real (real n) =
      (if 2 ^ 128 \<le> \<bar>real_of_int (roundEven (real n / pow2 (max (binade (real n)) (- 126) - 23)))
                        * pow2 (max (binade (real n)) (- 126) - 23)\<bar>
       then jinf (real n)
       else Num (real_of_int (roundEven (real n / pow2 (max (binade (real n)) (- 126) - 23)))
                   * pow2 (max (binade (real n)) (- 126) - 23)))"
    by (simp only: fround_real_def Let_def nz if_False)
  also have "\<dots> = Num (real n)"
    by (simp only: b e q v small if_False)
  finally show ?thesis .
qed

lemmas fround_eval =
  fround_real_def binade_def bitLength.simps pow2_def roundEven_def Let_def jinf_def

lemma fround_real_16777216: "fround_real 16777216 = Num 16777216"
  by (simp add: fround_eval)

lemma fround_real_nat:
  assumes "n \<le> 2 ^ 24"
  shows "fround_real (real n) = Num (real n)"
proof (cases "n = 2 ^ 24")
  case True
  then show ?thesis using fround_real_16777216 by simp
next
  case False
  with assms have "n < 2 ^ 24" by simp
  then show ?thesis by (rule fround_real_small_nat)
qed

section \<open>The integral image\<close>

lemma rd_nat: "rd buf (int k) = (if k < length buf then buf ! k else NaN)"
  by (simp add: rd_def)

lemma fold_upt_inv:
  assumes "P 0 s" and "\<And>i t. i < n \<Longrightarrow> P i t \<Longrightarrow> P (Suc i) (step i t)"
  shows "P n (fold step [0..<n] s)"
proof -
  have "k \<le> n \<Longrightarrow> P k (fold step [0..<k] s)" for k
    by (induction k) (auto simp: assms)
  then show ?thesis by simp
qed

lemma cell_index_less:
  assumes "y < height" "x < width"
  shows "y * width + x < width * (height::nat)"
proof -
  have "y * width + x < Suc y * width" using assms by simp
  also have "\<dots> \<le> height * width" using assms by (intro mult_le_mono1) simp
  finally show ?thesis by (simp add: mult.commute)
qed

lemma cell_index_row_less:
  assumes "j < y" "a < width"
  shows "j * width + a < y * width + (x::nat)"
proof -
  have "j * width + a < Suc j * width" using assms by simp
  also have "\<dots> \<le> y * width" using assms by (intro mult_le_mono1) simp
  finally show ?thesis by simp
qed

lemma areaSum_Suc_row:
  "areaSum f width (Suc y) x = areaSum f width y x + (\<Sum>a<x. f (y * width + a))"
  by (simp add: areaSum_def)

lemma chan_step:
  assumes inv: "chan_inv f width height y x rs tbl" and x: "x < width" and y: "y < height"
    and exact: "fround_real (areaSum f width (Suc y) (Suc x)) = Num (areaSum f width (Suc y) (Suc x))"
  shows "chan_inv f width height y (Suc x) (jadd rs (Num (f (y * width + x))))
           (tbl[y * width + x := fround (jadd (jadd rs (Num (f (y * width + x))))
                  (if y > 0 then rd tbl (int ((y - 1) * width + x)) else Num 0))])"
proof -
  let ?idx = "y * width + x"
  from inv have len: "length tbl = width * height"
    and rs: "rs = Num (\<Sum>a<x. f (y * width + a))"
    and row: "\<And>a. a < x \<Longrightarrow> tbl ! (y * width + a) = Num (areaSum f width (Suc y) (Suc a))"
    and rows: "\<And>j a. j < y \<Longrightarrow> a < width \<Longrightarrow> tbl ! (j * width + a) = Num (areaSum f width (Suc j) (Suc a))"
    by (auto simp: chan_inv_def)
  have idx: "?idx < length tbl" using cell_index_less[OF y x] len by simp
  have rs': "jadd rs (Num (f ?idx)) = Num (\<Sum>a<Suc x. f (y * width + a))"
    by (simp add: rs)
  have above: "(if y > 0 then rd tbl (int ((y - 1) * width + x)) else Num 0) = Num (areaSum f width y (Suc x))"
  proof (cases "y > 0")
    case True
    then obtain j where j: "y = Suc j" by (cases y) auto
    have "j * width + x < length tbl" using cell_index_less[of j height x width] x y j len by simp
    then have "rd tbl (int (j * width + x)) = tbl ! (j * width + x)" by (simp only: rd_nat if_True)
    also have "\<dots> = Num (areaSum f width (Suc j) (Suc x))" using rows[of j x] j x by simp
    finally show ?thesis using j by simp
  next
    case False
    then show ?thesis by (simp add: areaSum_def)
  qed
  have unrounded: "jadd (jadd rs (Num (f ?idx))) (if y > 0 then rd tbl (int ((y - 1) * width + x)) else Num 0)
     = Num (areaSum f width (Suc y) (Suc x))"
    unfolding rs' above by (simp add: areaSum_Suc_row)
  have new: "fround (jadd (jadd rs (Num (f ?idx))) (if y > 0 then rd tbl (int ((y - 1) * width + x)) else Num 0))
     = Num (areaSum f width (Suc y) (Suc x))"
    by (simp only: unrounded fround.simps exact)
  show ?thesis
    unfolding chan_inv_def new
  proof (intro conjI allI impI)
    show "length (tbl[?idx := Num (areaSum f width (Suc y) (Suc x))]) = width * height"
      using len by simp
    show "jadd rs (Num (f ?idx)) = Num (\<Sum>a<Suc x. f (y * width + a))" by (rule rs')
  next
    fix a assume "a < Suc x"
    then show "tbl[?idx := Num (areaSum f width (Suc y) (Suc x))] ! (y * width + a) = Num (areaSum f width (Suc y) (Suc a))"
      using idx row[of a] by (cases "a = x") auto
  next
    fix j a assume "j < y" "a < width"
    then show "tbl[?idx := Num (areaSum f width (Suc y) (Suc x))] ! (j * width + a) = Num (areaSum f width (Suc j) (Suc a))"
      using cell_index_row_less[of j y a width x] rows[of j a] by simp
  qed
qed

lemma chan_inv_start: "rows_inv f width height y tbl \<Longrightarrow> chan_inv f width height y 0 (Num 0) tbl"
  by (simp add: rows_inv_def chan_inv_def)

lemma chan_inv_finish: "chan_inv f width height y width rs tbl \<Longrightarrow> rows_inv f width height (Suc y) tbl"
  by (auto simp: rows_inv_def chan_inv_def less_Suc_eq)

text \<open>
  The two tables are filled independently of each other: the table of sums is exact when
  the sums are binary32 values, the table of sums of squares when those are.
\<close>

lemma pixelStep_sums:
  assumes len: "length g = width * height" and x: "x < width" and y: "y < height"
    and c: "chan_inv (\<lambda>k. g ! k) width height y x rs tbl"
    and exact: "float32_sums (\<lambda>k. g ! k) width height"
  shows "case pixelStep (map Num g) width y x (rs, rs2, tbl, tbl2) of
           (rs', rs2', tbl', tbl2') \<Rightarrow> chan_inv (\<lambda>k. g ! k) width height y (Suc x) rs' tbl'"
proof -
  have idx: "y * width + x < length g" using cell_index_less[OF y x] len by simp
  have val: "rd (map Num g) (int (y * width + x)) = Num (g ! (y * width + x))"
    using idx by (simp only: rd_nat length_map if_True nth_map)
  have e: "fround_real (areaSum (\<lambda>k. g ! k) width (Suc y) (Suc x))
      = Num (areaSum (\<lambda>k. g ! k) width (Suc y) (Suc x))"
    using exact x y by (simp add: float32_sums_def)
  show ?thesis
    unfolding pixelStep_def Let_def prod.case val jmul.simps
    using chan_step[OF c x y e] by simp
qed

lemma pixelStep_squares:
  assumes len: "length g = width * height" and x: "x < width" and y: "y < height"
    and c: "chan_inv (\<lambda>k. g ! k * g ! k) width height y x rs2 tbl2"
    and exact: "float32_sums (\<lambda>k. g ! k * g ! k) width height"
  shows "case pixelStep (map Num g) width y x (rs, rs2, tbl, tbl2) of
           (rs', rs2', tbl', tbl2') \<Rightarrow> chan_inv (\<lambda>k. g ! k * g ! k) width height y (Suc x) rs2' tbl2'"
proof -
  have idx: "y * width + x < length g" using cell_index_less[OF y x] len by simp
  have val: "rd (map Num g) (int (y * width + x)) = Num (g ! (y * width + x))"
    using idx by (simp only: rd_nat length_map if_True nth_map)
  have e: "fround_real (areaSum (\<lambda>k. g ! k * g ! k) width (Suc y) (Suc x))
      = Num (areaSum (\<lambda>k. g ! k * g ! k) width (Suc y) (Suc x))"
    using exact x y by (simp add: float32_sums_def)
  show ?thesis
    unfolding pixelStep_def Let_def prod.case val jmul.simps
    using chan_step[OF c x y e] by simp
qed

lemma rowStep_sums:
  assumes len: "length g = width * height" and y: "y < height"
    and r: "rows_inv (\<lambda>k. g ! k) width height y tbl"
    and exact: "float32_sums (\<lambda>k. g ! k) width height"
  shows "rows_inv (\<lambda>k. g ! k) width height (Suc y) (fst (rowStep (map Num g) width y (tbl, tbl2)))"
proof -
  let ?P = "\<lambda>x (st :: jsnum \<times> jsnum \<times> jsnum list \<times> jsnum list).
              case st of (rs, rs2, t, t2) \<Rightarrow> chan_inv (\<lambda>k. g ! k) width height y x rs t"
  have "?P width (fold (pixelStep (map Num g) width y) [0..<width] (Num 0, Num 0, tbl, tbl2))"
  proof (rule fold_upt_inv[where P = "?P"])
    show "?P 0 (Num 0, Num 0, tbl, tbl2)"
      using chan_inv_start[OF r] by simp
  next
    fix i t assume i: "i < width" and t: "?P i t"
    obtain rs rs2 u u2 where st: "t = (rs, rs2, u, u2)" by (cases t) auto
    show "?P (Suc i) (pixelStep (map Num g) width y i t)"
      using pixelStep_sums[OF len i y _ exact, of rs u rs2 u2] t unfolding st by simp
  qed
  then show ?thesis
    by (auto simp: rowStep_def split: prod.splits dest: chan_inv_finish)
qed

lemma rowStep_squares:
  assumes len: "length g = width * height" and y: "y < height"
    and r: "rows_inv (\<lambda>k. g ! k * g ! k) width height y tbl2"
    and exact: "float32_sums (\<lambda>k. g ! k * g ! k) width height"
  shows "rows_inv (\<lambda>k. g ! k * g ! k) width height (Suc y) (snd (rowStep (map Num g) width y (tbl, tbl2)))"
proof -
  let ?P = "\<lambda>x (st :: jsnum \<times> jsnum \<times> jsnum list \<times> jsnum list).
              case st of (rs, rs2, t, t2) \<Rightarrow> chan_inv (\<lambda>k. g ! k * g ! k) width height y x rs2 t2"
  have "?P width (fold (pixelStep (map Num g) width y) [0..<width] (Num 0, Num 0, tbl, tbl2))"
  proof (rule fold_upt_inv[where P = "?P"])
    show "?P 0 (Num 0, Num 0, tbl, tbl2)"
      using chan_inv_start[OF r] by simp
  next
    fix i t assume i: "i < width" and t: "?P i t"
    obtain rs rs2 u u2 where st: "t = (rs, rs2, u, u2)" by (cases t) auto
    show "?P (Suc i) (pixelStep (map Num g) width y i t)"
      using pixelStep_squares[OF len i y _ exact, of rs2 u2 rs u] t unfolding st by simp
  qed
  then show ?thesis
    by (auto simp: rowStep_def split: prod.splits dest: chan_inv_finish)
qed

lemma computeIntegralImage_sums:
  assumes len: "length g = width * height"
    and exact: "float32_sums (\<lambda>k. g ! k) width height"
  shows "rows_inv (\<lambda>k. g ! k) width height height (fst (computeIntegralImage (map Num g) width height))"
proof -
  let ?P = "\<lambda>y (tabs :: jsnum list \<times> jsnum list).
              rows_inv (\<lambda>k. g ! k) width height y (fst tabs)"
  have "?P height (fold (rowStep (map Num g) width) [0..<height]
          (replicate (width * height) (Num 0), replicate (width * height) (Num 0)))"
  proof (rule fold_upt_inv[where P = "?P"])
    show "?P 0 (replicate (width * height) (Num 0), replicate (width * height) (Num 0))"
      by (simp add: rows_inv_def)
  next
    fix i t assume i: "i < height" and t: "?P i t"
    show "?P (Suc i) (rowStep (map Num g) width i t)"
      using rowStep_sums[OF len i _ exact, of "fst t" "snd t"] t by simp
  qed
  then show ?thesis by (simp add: computeIntegralImage_def)
qed

lemma computeIntegralImage_squares:
  assumes len: "length g = width * height"
    and exact: "float32_sums (\<lambda>k. g ! k * g ! k) width height"
  shows "rows_inv (\<lambda>k. g ! k * g ! k) width height height
           (snd (computeIntegralImage (map Num g) width height))"
proof -
  let ?P = "\<lambda>y (tabs :: jsnum list \<times> jsnum list).
              rows_inv (\<lambda>k. g ! k * g ! k) width height y (snd tabs)"
  have "?P height (fold (rowStep (map Num g) width) [0..<height]
          (replicate (width * height) (Num 0), replicate (width * height) (Num 0)))"
  proof (rule fold_upt_inv[where P = "?P"])
    show "?P 0 (replicate (width * height) (Num 0), replicate (width * height) (Num 0))"
      by (simp add: rows_inv_def)
  next
    fix i t assume i: "i < height" and t: "?P i t"
    show "?P (Suc i) (rowStep (map Num g) width i t)"
      using rowStep_squares[OF len i _ exact, of "snd t" "fst t"] t by simp
  qed
  then show ?thesis by (simp add: computeIntegralImage_def)
qed

lemma areaSum_rect:
  assumes "Y \<le> Y1" "X \<le> X1"
  shows "(\<Sum>b\<in>{Y..<Y1}. \<Sum>a\<in>{X..<X1}. f (b * width + a)) =
         areaSum f width Y1 X1 - areaSum f width Y X1 - areaSum f width Y1 X + areaSum f width Y X"
proof -
  let ?G = "\<lambda>b. \<Sum>a\<in>{X..<X1}. f (b * width + a)"
  have sx: "(\<Sum>a<X1. f (b * width + a)) = (\<Sum>a<X. f (b * width + a)) + ?G b" for b
    using sum.atLeastLessThan_concat[of 0 X X1 "\<lambda>a. f (b * width + a)"] assms
    by (simp add: lessThan_atLeast0)
  have sy: "(\<Sum>b<Y1. h b) = (\<Sum>b<Y. h b) + (\<Sum>b\<in>{Y..<Y1}. h b)" for h :: "nat \<Rightarrow> real"
    using sum.atLeastLessThan_concat[of 0 Y Y1 h] assms by (simp add: lessThan_atLeast0)
  have a1: "areaSum f width Y1 X1 = areaSum f width Y1 X + (\<Sum>b<Y1. ?G b)"
    by (simp add: areaSum_def sx sum.distrib)
  have a2: "areaSum f width Y X1 = areaSum f width Y X + (\<Sum>b<Y. ?G b)"
    by (simp add: areaSum_def sx sum.distrib)
  show ?thesis unfolding a1 a2 using sy[of ?G] by simp
qed

lemma rd_cell:
  assumes "rows_inv f width height height tbl" "j < height" "a < width"
  shows "rd tbl (int j * int width + int a) = Num (areaSum f width (Suc j) (Suc a))"
proof -
  have "j * width + a < length tbl"
    using cell_index_less[of j height a width] assms by (simp add: rows_inv_def)
  then have "rd tbl (int (j * width + a)) = tbl ! (j * width + a)"
    by (simp only: rd_nat if_True)
  then show ?thesis using assms by (simp add: rows_inv_def)
qed

lemma rectSum_inside:
  assumes inv: "rows_inv f width height height tbl"
    and "0 \<le> x" "0 \<le> y" "0 < w" "0 < h" "x + w \<le> int width" "y + h \<le> int height"
  shows "rectSum tbl width x y w h =
         Num (\<Sum>b\<in>{nat y..<nat (y + h)}. \<Sum>a\<in>{nat x..<nat (x + w)}. f (b * width + a))"
proof -
  define X Y X1 Y1 where "X = nat x" and "Y = nat y" and "X1 = nat (x + w - 1)" and "Y1 = nat (y + h - 1)"
  have xy: "x = int X" "y = int Y" and x2: "x + w - 1 = int X1" and y2: "y + h - 1 = int Y1"
    using assms by (simp_all add: X_def Y_def X1_def Y1_def)
  have bounds: "X \<le> X1" "Y \<le> Y1" "X1 < width" "Y1 < height"
    using assms by (simp_all add: X_def Y_def X1_def Y1_def nat_le_eq_zle nat_less_iff)
  have ends: "nat (x + w) = Suc X1" "nat (y + h) = Suc Y1"
    using assms by (simp_all add: X1_def Y1_def)
  have D: "rd tbl (int Y1 * int width + int X1) = Num (areaSum f width (Suc Y1) (Suc X1))"
    using rd_cell[OF inv] bounds by simp
  have C: "(if x > 0 then rd tbl (int Y1 * int width + (x - 1)) else Num 0) = Num (areaSum f width (Suc Y1) X)"
  proof (cases X)
    case 0 then show ?thesis using xy by (simp add: areaSum_def)
  next
    case (Suc X') 
    then have "x - 1 = int X'" "X' < width" using xy bounds by auto
    then show ?thesis using rd_cell[OF inv, of Y1 X'] bounds Suc xy by simp
  qed
  have B: "(if y > 0 then rd tbl ((y - 1) * int width + int X1) else Num 0) = Num (areaSum f width Y (Suc X1))"
  proof (cases Y)
    case 0 then show ?thesis using xy by (simp add: areaSum_def)
  next
    case (Suc Y') 
    then have "y - 1 = int Y'" "Y' < height" using xy bounds by auto
    then show ?thesis using rd_cell[OF inv, of Y' X1] bounds Suc xy by simp
  qed
  have A: "(if x > 0 \<and> y > 0 then rd tbl ((y - 1) * int width + (x - 1)) else Num 0) = Num (areaSum f width Y X)"
  proof (cases "X = 0 \<or> Y = 0")
    case True then show ?thesis using xy by (auto simp: areaSum_def)
  next
    case False
    then obtain X' Y' where s: "X = Suc X'" "Y = Suc Y'" by (metis not0_implies_Suc)
    then have "x - 1 = int X'" "X' < width" "y - 1 = int Y'" "Y' < height" using xy bounds by auto
    then show ?thesis using rd_cell[OF inv, of Y' X'] bounds s xy by simp
  qed
  have "rectSum tbl width x y w h =
      Num (areaSum f width (Suc Y1) (Suc X1) - areaSum f width Y (Suc X1) - areaSum f width (Suc Y1) X + areaSum f width Y X)"
    using assms unfolding rectSum_def Let_def x2 y2 D C B A by (simp add: jsub_def)
  also have "\<dots> = Num (\<Sum>b\<in>{Y..<Suc Y1}. \<Sum>a\<in>{X..<Suc X1}. f (b * width + a))"
    using areaSum_rect[of Y "Suc Y1" X "Suc X1" f width] bounds by simp
  finally show ?thesis using xy ends by simp
qed

lemma areaSum_whole:
  assumes "length g = width * height"
  shows "areaSum (\<lambda>k. g ! k) width height width = sum_list g"
proof -
  have inner: "(\<Sum>a<width. g ! (b * width + a)) = sum ((!) g) {b * width..<b * width + width}" for b
    using sum.shift_bounds_nat_ivl[of "(!) g" 0 "b * width" width]
    by (simp add: lessThan_atLeast0 add.commute)
  have "areaSum (\<lambda>k. g ! k) width height width = sum ((!) g) {..<height * width}"
    unfolding areaSum_def inner by (rule sum.nat_group)
  also have "\<dots> = sum_list g"
    using assms by (simp add: sum_list_sum_nth lessThan_atLeast0 mult.commute)
  finally show ?thesis .
qed

subsection \<open>Images of integer intensities\<close>

text \<open>
  An image of natural numbers whose total is at most \<open>2 ^ 24\<close>: every sum of a block of
  its pixels is a natural number up to \<open>2 ^ 24\<close>, which binary32 holds exactly.
\<close>

lemma nat_cell_nth:
  assumes "length p = width * height" "b < height" "a < width"
  shows "map real p ! (b * width + a) = real (p ! (b * width + a))"
  using cell_index_less[of b height a width] assms by simp

lemma nat_block_sum:
  assumes len: "length p = width * height" and "Y1 \<le> height" "X1 \<le> width"
  shows "(\<Sum>b\<in>{Y..<Y1}. \<Sum>a\<in>{X..<X1}. map real p ! (b * width + a)) =
         real (\<Sum>b\<in>{Y..<Y1}. \<Sum>a\<in>{X..<X1}. p ! (b * width + a))"
  unfolding of_nat_sum
  using assms by (intro sum.cong refl nat_cell_nth[OF len]) auto

lemma nat_block_sum_squares:
  assumes len: "length p = width * height" and "Y1 \<le> height" "X1 \<le> width"
  shows "(\<Sum>b\<in>{Y..<Y1}. \<Sum>a\<in>{X..<X1}. map real p ! (b * width + a) * map real p ! (b * width + a)) =
         real (\<Sum>b\<in>{Y..<Y1}. \<Sum>a\<in>{X..<X1}. p ! (b * width + a) * p ! (b * width + a))"
proof -
  have "map real p ! (b * width + a) * map real p ! (b * width + a)
      = real (p ! (b * width + a) * p ! (b * width + a))"
    if "b \<in> {Y..<Y1}" "a \<in> {X..<X1}" for b a
    using nat_cell_nth[OF len, of b a] that assms by simp
  then show ?thesis unfolding of_nat_sum by (intro sum.cong refl) auto
qed

lemma nat_block_le_total:
  fixes G :: "nat \<Rightarrow> nat"
  assumes "y \<le> height" "x \<le> width"
  shows "(\<Sum>b<y. \<Sum>a<x. G (b * width + a)) \<le> sum G {..<height * width}"
proof -
  have "(\<Sum>b<y. \<Sum>a<x. G (b * width + a)) \<le> (\<Sum>b<y. \<Sum>a<width. G (b * width + a))"
    using assms by (intro sum_mono sum_mono2) auto
  also have "\<dots> \<le> (\<Sum>b<height. \<Sum>a<width. G (b * width + a))"
    using assms by (intro sum_mono2) auto
  also have "\<dots> = sum G {..<height * width}"
  proof -
    have inner: "(\<Sum>a<width. G (b * width + a)) = sum G {b * width..<b * width + width}" for b
      using sum.shift_bounds_nat_ivl[of G 0 "b * width" width]
      by (simp add: lessThan_atLeast0 add.commute)
    show ?thesis unfolding inner by (rule sum.nat_group)
  qed
  finally show ?thesis .
qed

lemma nat_total: "sum (\<lambda>k. F (p ! k)) {..<length p} = sum_list (map F p)"
  by (simp add: sum_list_sum_nth lessThan_atLeast0)

lemma nat_image_float32_sums:
  assumes len: "length p = width * height" and small: "sum_list p \<le> 2 ^ 24"
  shows "float32_sums (\<lambda>k. map real p ! k) width height"
  unfolding float32_sums_def
proof (intro allI impI)
  fix y x assume y: "y < height" and x: "x < width"
  let ?N = "\<Sum>b<Suc y. \<Sum>a<Suc x. p ! (b * width + a)"
  have eq: "areaSum (\<lambda>k. map real p ! k) width (Suc y) (Suc x) = real ?N"
    using nat_block_sum[OF len, of "Suc y" "Suc x" 0 0] x y
    by (simp add: areaSum_def lessThan_atLeast0)
  have "?N \<le> sum (\<lambda>k. p ! k) {..<height * width}"
    using x y by (intro nat_block_le_total) auto
  also have "\<dots> = sum_list p"
    using nat_total[of "\<lambda>v. v" p] len by (simp add: mult.commute)
  finally have "?N \<le> 2 ^ 24" using small by simp
  then show "fround_real (areaSum (\<lambda>k. map real p ! k) width (Suc y) (Suc x))
      = Num (areaSum (\<lambda>k. map real p ! k) width (Suc y) (Suc x))"
    unfolding eq by (rule fround_real_nat)
qed

lemma nat_image_float32_squares:
  assumes len: "length p = width * height" and small: "sum_list (map (\<lambda>v. v * v) p) \<le> 2 ^ 24"
  shows "float32_sums (\<lambda>k. map real p ! k * map real p ! k) width height"
  unfolding float32_sums_def
proof (intro allI impI)
  fix y x assume y: "y < height" and x: "x < width"
  let ?N = "\<Sum>b<Suc y. \<Sum>a<Suc x. p ! (b * width + a) * p ! (b * width + a)"
  have eq: "areaSum (\<lambda>k. map real p ! k * map real p ! k) width (Suc y) (Suc x) = real ?N"
    using nat_block_sum_squares[OF len, of "Suc y" "Suc x" 0 0] x y
    by (simp add: areaSum_def lessThan_atLeast0)
  have "?N \<le> sum (\<lambda>k. p ! k * p ! k) {..<height * width}"
    using x y by (intro nat_block_le_total) auto
  also have "\<dots> = sum_list (map (\<lambda>v. v * v) p)"
    using nat_total[of "\<lambda>v. v * v" p] len by (simp add: mult.commute)
  finally have "?N \<le> 2 ^ 24" using small by simp
  then show "fround_real (areaSum (\<lambda>k. map real p ! k * map real p ! k) width (Suc y) (Suc x))
      = Num (areaSum (\<lambda>k. map real p ! k * map real p ! k) width (Suc y) (Suc x))"
    unfolding eq by (rule fround_real_nat)
qed

lemma nat_image_sums:
  assumes len: "length p = width * height" and small: "sum_list p \<le> 2 ^ 24"
  shows "rows_inv (\<lambda>k. map real p ! k) width height height
           (fst (computeIntegralImage (map (\<lambda>v. Num (real v)) p) width height))"
proof -
  have e: "map (\<lambda>v. Num (real v)) p = map Num (map real p)" by (simp add: comp_def)
  have "length (map real p) = width * height" using len by simp
  from computeIntegralImage_sums[OF this nat_image_float32_sums[OF len small]]
  show ?thesis unfolding e .
qed

lemma nat_image_squares:
  assumes len: "length p = width * height" and small: "sum_list (map (\<lambda>v. v * v) p) \<le> 2 ^ 24"
  shows "rows_inv (\<lambda>k. map real p ! k * map real p ! k) width height height
           (snd (computeIntegralImage (map (\<lambda>v. Num (real v)) p) width height))"
proof -
  have e: "map (\<lambda>v. Num (real v)) p = map Num (map real p)" by (simp add: comp_def)
  have "length (map real p) = width * height" using len by simp
  from computeIntegralImage_squares[OF this nat_image_float32_squares[OF len small]]
  show ?thesis unfolding e .
qed

lemma rectSum_nat_inside:
  assumes len: "length p = width * height"
    and inv: "rows_inv (\<lambda>k. map real p ! k) width height height tbl"
    and geo: "0 \<le> x" "0 \<le> y" "0 < w" "0 < h" "x + w \<le> int width" "y + h \<le> int height"
  shows "rectSum tbl width x y w h =
         Num (real (\<Sum>b\<in>{nat y..<nat (y + h)}. \<Sum>a\<in>{nat x..<nat (x + w)}. p ! (b * width + a)))"
proof -
  have "nat (y + h) \<le> height" "nat (x + w) \<le> width" using geo by simp_all
  from nat_block_sum[OF len this] rectSum_inside[OF inv geo] show ?thesis by simp
qed

lemma rectSum_nat_squares_inside:
  assumes len: "length p = width * height"
    and inv: "rows_inv (\<lambda>k. map real p ! k * map real p ! k) width height height tbl"
    and geo: "0 \<le> x" "0 \<le> y" "0 < w" "0 < h" "x + w \<le> int width" "y + h \<le> int height"
  shows "rectSum tbl width x y w h =
         Num (real (\<Sum>b\<in>{nat y..<nat (y + h)}. \<Sum>a\<in>{nat x..<nat (x + w)}.
                      p ! (b * width + a) * p ! (b * width + a)))"
proof -
  have "nat (y + h) \<le> height" "nat (x + w) \<le> width" using geo by simp_all
  from nat_block_sum_squares[OF len this] rectSum_inside[OF inv geo] show ?thesis by simp
qed

lemma fround_real_16777217: "fround_real 16777217 = Num 16777216"
  by (simp add: fround_eval)

lemma fround_real_square: "fround_real 281474976710656 = Num 281474976710656"
  by (simp add: fround_eval)

lemma fround_real_square_1: "fround_real 281474976710657 = Num 281474976710656"
  by (simp add: fround_eval)

lemma saturated_tables:
  "computeIntegralImage [Num 16777216, Num 1] 2 1 =
     ([Num 16777216, Num 16777216], [Num 281474976710656, Num 281474976710656])"
  by (simp add: computeIntegralImage_def rowStep_def pixelStep_def rd_def upt_rec Let_def
        numeral_2_eq_2 fround_real_16777216 fround_real_16777217
        fround_real_square fround_real_square_1)

lemma fround_real_luma: "fround_real (299 / 1000) = Num (10032775 / 33554432)"
  by (simp add: fround_eval)

lemma fround_real_luma_fixed: "fround_real (10032775 / 33554432) = Num (10032775 / 33554432)"
  by (simp add: fround_eval)

lemma fround_real_255: "fround_real 255 = Num 255"
  by (simp add: fround_eval)

lemma fround_real_eval:
  assumes "r \<noteq> 0" and "max (binade r) (- 126) - 23 = k" and "pow2 k = q"
    and "roundEven (r / q) = m" and "(2 ^ 128 \<le> \<bar>real_of_int m * q\<bar>) = False"
  shows "fround_real r = Num (real_of_int m * q)"
proof -
  have "fround_real r =
      (if 2 ^ 128 \<le> \<bar>real_of_int (roundEven (r / pow2 (max (binade r) (- 126) - 23)))
                        * pow2 (max (binade r) (- 126) - 23)\<bar>
       then jinf r
       else Num (real_of_int (roundEven (r / pow2 (max (binade r) (- 126) - 23)))
                   * pow2 (max (binade r) (- 126) - 23)))"
    using assms(1) by (simp only: fround_real_def Let_def if_False)
  also have "\<dots> = Num (real_of_int m * q)"
    by (simp only: assms(2-5) if_False)
  finally show ?thesis .
qed

lemma fround_real_luma_sum:
  "fround_real (8566412935 / 33554432) = Num (16731275 / 65536)"
proof -
  have "fround_real (8566412935 / 33554432) = Num (real_of_int 16731275 * (1 / 65536))"
  proof (rule fround_real_eval[where k = "- 16"])
    show "(8566412935 / 33554432 :: real) \<noteq> 0" by simp
    show "max (binade (8566412935 / 33554432)) (- 126) - 23 = - 16"
      by (simp add: binade_def bitLength.simps)
    show "pow2 (- 16) = 1 / 65536" by (simp add: pow2_def)
    show "roundEven (8566412935 / 33554432 / (1 / 65536)) = 16731275"
      by (simp add: roundEven_def Let_def)
    show "(2 ^ 128 \<le> \<bar>real_of_int 16731275 * (1 / 65536)\<bar>) = False" by simp
  qed
  then show ?thesis by simp
qed

lemma luma_tables:
  "fst (computeIntegralImage [Num 255, Num (10032775 / 33554432)] 2 1) =
     [Num 255, Num (16731275 / 65536)]"
  by (simp add: computeIntegralImage_def rowStep_def pixelStep_def rd_def upt_rec Let_def
        numeral_2_eq_2 fround_real_255 fround_real_luma_sum split: prod.splits)

text \<open>
  Claim C3 (not met by the code as stated). The tables are \<open>Float32Array\<close>s, so what
  is stored in them is rounded to binary32. On the one-row image \<open>16777216, 1\<close> the
  second entry of \<open>ii\<close> is 16777216, not 16777217; \<open>rectSum\<close> over the whole image is
  16777216 and over the 1 by 1 rectangle of the second pixel it is 0, not 1. On the one-row
  image of a white pixel, 255, and a dark red one, whose intensity \<open>0.299\<close> is stored in
  the grayscale array as \<open>10032775 / 2 ^ 25\<close>, the second entry of \<open>ii\<close> is
  \<open>16731275 / 2 ^ 16\<close>, and \<open>rectSum\<close> over the second pixel is \<open>19595 / 2 ^ 16\<close>, which is
  not that pixel's intensity.
\<close>

theorem integral_image_rounds:
  "computeIntegralImage [Num 16777216, Num 1] 2 1 =
     ([Num 16777216, Num 16777216], [Num 281474976710656, Num 281474976710656]) \<and>
   [Num 16777216, Num 16777216] ! (0 * 2 + 1) \<noteq> Num (16777216 + 1) \<and>
   [Num 281474976710656, Num 281474976710656] ! (0 * 2 + 1) \<noteq> Num (16777216 * 16777216 + 1 * 1) \<and>
   rectSum [Num 16777216, Num 16777216] 2 0 0 2 1 = Num 16777216 \<and>
   rectSum [Num 16777216, Num 16777216] 2 1 0 1 1 = Num 0 \<and>
   fround (Num (299 / 1000)) = Num (10032775 / 33554432) \<and>
   fround (Num (10032775 / 33554432)) = Num (10032775 / 33554432) \<and>
   fst (computeIntegralImage [Num 255, Num (10032775 / 33554432)] 2 1) =
     [Num 255, Num (16731275 / 65536)] \<and>
   rectSum [Num 255, Num (16731275 / 65536)] 2 1 0 1 1 = Num (19595 / 65536) \<and>
   (19595 / 65536 :: real) \<noteq> 10032775 / 33554432"
proof -
  have cells: "[Num 16777216, Num 16777216] ! (0 * 2 + 1) \<noteq> Num (16777216 + 1)"
    "[Num 281474976710656, Num 281474976710656] ! (0 * 2 + 1) \<noteq> Num (16777216 * 16777216 + 1 * 1)"
    by simp_all
  have sums: "rectSum [Num 16777216, Num 16777216] 2 0 0 2 1 = Num 16777216"
    "rectSum [Num 16777216, Num 16777216] 2 1 0 1 1 = Num 0"
    "rectSum [Num 255, Num (16731275 / 65536)] 2 1 0 1 1 = Num (19595 / 65536)"
    by (simp_all add: rectSum_def rd_def jsub_def)
  have stored: "fround (Num (299 / 1000)) = Num (10032775 / 33554432)"
    "fround (Num (10032775 / 33554432)) = Num (10032775 / 33554432)"
    by (simp_all add: fround_real_luma fround_real_luma_fixed)
  have differ: "(19595 / 65536 :: real) \<noteq> 10032775 / 33554432" by simp
  show ?thesis
    by (intro conjI saturated_tables cells sums stored luma_tables differ)
qed

text \<open>
  Claim C3 as amended. For an image of \<open>width * height\<close> natural intensities whose total
  is at most \<open>2 ^ 24\<close>, the table \<open>ii\<close> built by \<open>computeIntegralImage\<close> holds at \<open>(x, y)\<close>
  the sum of the intensities at all coordinates \<open>\<le> (x, y)\<close>; hence \<open>rectSum\<close> over a
  rectangle inside the image is the sum of the intensities it covers, over the whole image
  it is the sum of all intensities, and over a 1 by 1 rectangle it is that pixel. When
  the total of the squared intensities is at most \<open>2 ^ 24\<close>, the table \<open>ii2\<close> holds at
  \<open>(x, y)\<close> the sum of the squared intensities at all coordinates \<open>\<le> (x, y)\<close>.
\<close>

theorem integral_image_correct:
  assumes len: "length p = width * height"
    and tabs: "computeIntegralImage (map (\<lambda>v. Num (real v)) p) width height = (ii, ii2)"
  shows "(sum_list p \<le> 2 ^ 24 \<longrightarrow>
            (\<forall>y<height. \<forall>x<width.
               ii ! (y * width + x) = Num (real (\<Sum>b\<le>y. \<Sum>a\<le>x. p ! (b * width + a)))) \<and>
            (\<forall>x y w h. 0 \<le> x \<and> 0 \<le> y \<and> 0 < w \<and> 0 < h \<and>
                 x + w \<le> int width \<and> y + h \<le> int height \<longrightarrow>
               rectSum ii width x y w h =
                 Num (real (\<Sum>b\<in>{nat y..<nat (y + h)}. \<Sum>a\<in>{nat x..<nat (x + w)}.
                              p ! (b * width + a)))) \<and>
            rectSum ii width 0 0 (int width) (int height) = Num (real (sum_list p)) \<and>
            (\<forall>y<height. \<forall>x<width.
               rectSum ii width (int x) (int y) 1 1 = Num (real (p ! (y * width + x))))) \<and>
         (sum_list (map (\<lambda>v. v * v) p) \<le> 2 ^ 24 \<longrightarrow>
            (\<forall>y<height. \<forall>x<width.
               ii2 ! (y * width + x) =
                 Num (real (\<Sum>b\<le>y. \<Sum>a\<le>x. p ! (b * width + a) * p ! (b * width + a)))))"
proof (intro conjI impI)
  assume small: "sum_list p \<le> 2 ^ 24"
  from nat_image_sums[OF len small] tabs
  have r1: "rows_inv (\<lambda>k. map real p ! k) width height height ii" by simp
  show "\<forall>y<height. \<forall>x<width.
          ii ! (y * width + x) = Num (real (\<Sum>b\<le>y. \<Sum>a\<le>x. p ! (b * width + a)))"
  proof (intro allI impI)
    fix y x assume y: "y < height" and x: "x < width"
    have "ii ! (y * width + x) = Num (areaSum (\<lambda>k. map real p ! k) width (Suc y) (Suc x))"
      using r1 x y by (simp add: rows_inv_def)
    also have "areaSum (\<lambda>k. map real p ! k) width (Suc y) (Suc x)
        = real (\<Sum>b<Suc y. \<Sum>a<Suc x. p ! (b * width + a))"
      using nat_block_sum[OF len, of "Suc y" "Suc x" 0 0] x y
      by (simp add: areaSum_def lessThan_atLeast0)
    finally show "ii ! (y * width + x) = Num (real (\<Sum>b\<le>y. \<Sum>a\<le>x. p ! (b * width + a)))"
      by (simp only: lessThan_Suc_atMost)
  qed
  show rect: "\<forall>x y w h. 0 \<le> x \<and> 0 \<le> y \<and> 0 < w \<and> 0 < h \<and>
                 x + w \<le> int width \<and> y + h \<le> int height \<longrightarrow>
               rectSum ii width x y w h =
                 Num (real (\<Sum>b\<in>{nat y..<nat (y + h)}. \<Sum>a\<in>{nat x..<nat (x + w)}.
                              p ! (b * width + a)))"
    using rectSum_nat_inside[OF len r1] by blast
  show "rectSum ii width 0 0 (int width) (int height) = Num (real (sum_list p))"
  proof (cases "width = 0 \<or> height = 0")
    case True
    then have "p = []" using len by auto
    then show ?thesis using True by (auto simp: rectSum_def)
  next
    case False
    then have "rectSum ii width 0 0 (int width) (int height) =
        Num (real (\<Sum>b\<in>{0..<height}. \<Sum>a\<in>{0..<width}. p ! (b * width + a)))"
      using rectSum_nat_inside[OF len r1, of 0 0 "int width" "int height"] by simp
    also have "(\<Sum>b\<in>{0..<height}. \<Sum>a\<in>{0..<width}. p ! (b * width + a)) = sum_list p"
    proof -
      have inner: "(\<Sum>a<width. p ! (b * width + a)) = sum ((!) p) {b * width..<b * width + width}" for b
        using sum.shift_bounds_nat_ivl[of "(!) p" 0 "b * width" width]
        by (simp add: lessThan_atLeast0 add.commute)
      have "(\<Sum>b<height. \<Sum>a<width. p ! (b * width + a)) = sum ((!) p) {..<height * width}"
        unfolding inner by (rule sum.nat_group)
      also have "\<dots> = sum_list p"
        using len by (simp add: sum_list_sum_nth lessThan_atLeast0 mult.commute)
      finally show ?thesis by (simp add: lessThan_atLeast0)
    qed
    finally show ?thesis .
  qed
  show "\<forall>y<height. \<forall>x<width.
          rectSum ii width (int x) (int y) 1 1 = Num (real (p ! (y * width + x)))"
  proof (intro allI impI)
    fix y x assume "y < height" "x < width"
    then show "rectSum ii width (int x) (int y) 1 1 = Num (real (p ! (y * width + x)))"
      using rectSum_nat_inside[OF len r1, of "int x" "int y" 1 1] by (simp add: nat_add_distrib)
  qed
next
  assume small: "sum_list (map (\<lambda>v. v * v) p) \<le> 2 ^ 24"
  from nat_image_squares[OF len small] tabs
  have r2: "rows_inv (\<lambda>k. map real p ! k * map real p ! k) width height height ii2" by simp
  show "\<forall>y<height. \<forall>x<width.
          ii2 ! (y * width + x) =
            Num (real (\<Sum>b\<le>y. \<Sum>a\<le>x. p ! (b * width + a) * p ! (b * width + a)))"
  proof (intro allI impI)
    fix y x assume y: "y < height" and x: "x < width"
    have "ii2 ! (y * width + x)
        = Num (areaSum (\<lambda>k. map real p ! k * map real p ! k) width (Suc y) (Suc x))"
      using r2 x y by (simp add: rows_inv_def)
    also have "areaSum (\<lambda>k. map real p ! k * map real p ! k) width (Suc y) (Suc x)
        = real (\<Sum>b<Suc y. \<Sum>a<Suc x. p ! (b * width + a) * p ! (b * width + a))"
      using nat_block_sum_squares[OF len, of "Suc y" "Suc x" 0 0] x y
      by (simp add: areaSum_def lessThan_atLeast0)
    finally show "ii2 ! (y * width + x) =
        Num (real (\<Sum>b\<le>y. \<Sum>a\<le>x. p ! (b * width + a) * p ! (b * width + a)))"
      by (simp only: lessThan_Suc_atMost)
  qed
qed

lemma integral_table_2x2:
  "computeIntegralImage [Num 1, Num 2, Num 3, Num 4] 2 2 =
     ([Num 1, Num 3, Num 4, Num 10], [Num 1, Num 5, Num 10, Num 30])"
  by code_simp

theorem integral_image_correct_witness:
  "length [1, 2, 3, 4 :: nat] = 2 * 2 \<and>
   computeIntegralImage (map (\<lambda>v. Num (real v)) [1, 2, 3, 4]) 2 2 =
     ([Num 1, Num 3, Num 4, Num 10], [Num 1, Num 5, Num 10, Num 30]) \<and>
   sum_list [1, 2, 3, 4 :: nat] \<le> 2 ^ 24 \<and>
   sum_list (map (\<lambda>v. v * v) [1, 2, 3, 4 :: nat]) \<le> 2 ^ 24 \<and>
   [Num 1, Num 3, Num 4, Num 10] ! 3 = Num 10 \<and>
   [Num 1, Num 5, Num 10, Num 30] ! 3 = Num 30 \<and>
   rectSum [Num 1, Num 3, Num 4, Num 10] 2 1 0 1 2 = Num 6 \<and>
   rectSum [Num 1, Num 3, Num 4, Num 10] 2 0 0 2 2 = Num 10 \<and>
   rectSum [Num 1, Num 3, Num 4, Num 10] 2 1 1 1 1 = Num 4"
proof -
  have len: "length [1, 2, 3, 4 :: nat] = 2 * 2" by simp
  have tabs: "computeIntegralImage (map (\<lambda>v. Num (real v)) [1, 2, 3, 4]) 2 2 =
     ([Num 1, Num 3, Num 4, Num 10], [Num 1, Num 5, Num 10, Num 30])"
    using integral_table_2x2 by simp
  have s1: "sum_list [1, 2, 3, 4 :: nat] \<le> 2 ^ 24" by simp
  have s2: "sum_list (map (\<lambda>v. v * v) [1, 2, 3, 4 :: nat]) \<le> 2 ^ 24" by simp
  note main = integral_image_correct[OF len tabs]
  note sums = main[THEN conjunct1, rule_format, OF s1]
  note squares = main[THEN conjunct2, rule_format, OF s2, of 1 1]
  note cells = sums[THEN conjunct1, rule_format, of 1 1]
  note inside = sums[THEN conjunct2, THEN conjunct1, rule_format, of 1 0 1 2]
  note whole = sums[THEN conjunct2, THEN conjunct2, THEN conjunct1]
  note single = sums[THEN conjunct2, THEN conjunct2, THEN conjunct2, rule_format, of 1 1]
  have c1: "[Num 1, Num 3, Num 4, Num 10] ! 3 = Num 10"
    using cells by simp
  have c2: "[Num 1, Num 5, Num 10, Num 30] ! 3 = Num 30"
    using squares by simp
  have c3: "rectSum [Num 1, Num 3, Num 4, Num 10] 2 1 0 1 2 = Num 6"
    using inside by (simp add: numeral_2_eq_2)
  have c4: "rectSum [Num 1, Num 3, Num 4, Num 10] 2 0 0 2 2 = Num 10"
    using whole by simp
  have c5: "rectSum [Num 1, Num 3, Num 4, Num 10] 2 1 1 1 1 = Num 4"
    using single by simp
  show ?thesis
    by (intro conjI len tabs s1 s2 c1 c2 c3 c4 c5)
qed

section \<open>Rectangles that leave the image\<close>

lemma rectSum_degenerate:
  "x < 0 \<or> y < 0 \<or> w \<le> 0 \<or> h \<le> 0 \<Longrightarrow> rectSum ii width x y w h = Num 0"
  by (simp add: rectSum_def)

lemma integral_table_3x3:
  "computeIntegralImage [Num 1, Num 1, Num 1, Num 1, Num 1, Num 1, Num 1, Num 1, Num 1] 3 3 =
     ([Num 1, Num 2, Num 3, Num 2, Num 4, Num 6, Num 3, Num 6, Num 9],
      [Num 1, Num 2, Num 3, Num 2, Num 4, Num 6, Num 3, Num 6, Num 9])"
  by code_simp

text \<open>
  Claim C2 (not met by the code). \<open>rectSum\<close> returns 0 for a rectangle of non-positive
  width or height or of negative origin, but it tests the rectangle against the left and
  top edges only. On the integral table of the 2 by 2 image \<open>1 2 / 3 4\<close>, the 1 by 1
  rectangle at \<open>(0, 2)\<close>, which lies below the image, makes it read index 4 of a table
  of length 4: the result is \<open>NaN\<close>, not 0. The 1 by 1 rectangle at \<open>(2, 0)\<close>, right of
  the image, reads index 2, the first cell of the next row, and the result is 1.
  \<open>evaluateFeature\<close> makes such calls: on the 3 by 3 image of ones, for the 3 by 3
  window at the origin (a 2 by 2 base window at scale 1.5), the rectangle of
  \<open>cornerFeature\<close> is rounded to the 2 by 2 square at \<open>(2, 2)\<close>, which leaves the image;
  the feature value is \<open>NaN\<close>.
\<close>

theorem rectSum_outside_image:
  "fst (computeIntegralImage [Num 1, Num 2, Num 3, Num 4] 2 2) = [Num 1, Num 3, Num 4, Num 10] \<and>
   length [Num 1, Num 3, Num 4, Num 10] = 4 \<and>
   rd [Num 1, Num 3, Num 4, Num 10] ((2 + 1 - 1) * 2 + (0 + 1 - 1)) = NaN \<and>
   rectSum [Num 1, Num 3, Num 4, Num 10] 2 0 2 1 1 = NaN \<and>
   rectSum [Num 1, Num 3, Num 4, Num 10] 2 2 0 1 1 = Num 1 \<and>
   fst (computeIntegralImage [Num 1, Num 1, Num 1, Num 1, Num 1, Num 1, Num 1, Num 1, Num 1] 3 3)
     = [Num 1, Num 2, Num 3, Num 2, Num 4, Num 6, Num 3, Num 6, Num 9] \<and>
   jround (2 * (3 / 2)) = 3 \<and>
   evaluateFeature cornerFeature [Num 1, Num 2, Num 3, Num 2, Num 4, Num 6, Num 3, Num 6, Num 9]
     3 0 0 (3 / 2) (Num (1 / 9)) (Num 1) = NaN"
  by (simp add: integral_table_2x2 integral_table_3x3 rectSum_def rd_def jsub_def
        evaluateFeature_def cornerFeature_def jround_def)

section \<open>Stages and the cascade\<close>

lemma classifierLoop_sum:
  "\<forall>wc\<in>set wcs. featureIndex wc < length features \<Longrightarrow>
   classifierLoop features ii imageWidth wx wy scale invArea stdDev wcs acc =
     Inr (acc + sum_list (map (vote features ii imageWidth wx wy scale invArea stdDev) wcs))"
  by (induction wcs arbitrary: acc) (simp_all add: vote_def Let_def)

lemma evaluateStage_votes:
  "\<forall>wc\<in>set (weakClassifiers st). featureIndex wc < length features \<Longrightarrow>
   evaluateStage st features ii imageWidth wx wy scale invArea stdDev =
     Inr (stageThreshold st \<le> sum_list (map (vote features ii imageWidth wx wy scale invArea stdDev) (weakClassifiers st)))"
  by (simp add: evaluateStage_def classifierLoop_sum)

lemma stageLoop_True_iff:
  "fst (stageLoop features ii imageWidth wx wy scale invArea stdDev sts) = Inr True \<longleftrightarrow>
   (\<forall>st\<in>set sts. evaluateStage st features ii imageWidth wx wy scale invArea stdDev = Inr True)"
  by (induction sts) (auto split: sum.splits prod.splits)

lemma stageLoop_first_failure:
  "k < length sts \<Longrightarrow>
   \<forall>i<k. evaluateStage (sts ! i) features ii imageWidth wx wy scale invArea stdDev = Inr True \<Longrightarrow>
   evaluateStage (sts ! k) features ii imageWidth wx wy scale invArea stdDev = Inr False \<Longrightarrow>
   stageLoop features ii imageWidth wx wy scale invArea stdDev sts = (Inr False, Suc k)"
proof (induction sts arbitrary: k)
  case Nil
  then show ?case by simp
next
  case (Cons st sts)
  show ?case
  proof (cases k)
    case 0
    then show ?thesis using Cons.prems by simp
  next
    case (Suc k')
    have "evaluateStage st features ii imageWidth wx wy scale invArea stdDev = Inr True"
      using Cons.prems(2) Suc by auto
    moreover have "stageLoop features ii imageWidth wx wy scale invArea stdDev sts = (Inr False, Suc k')"
      using Cons.prems Suc by (intro Cons.IH) auto
    ultimately show ?thesis using Suc by simp
  qed
qed

lemma windowStdDev_cases:
  "windowStdDev ii ii2 imageWidth wx wy winW winH =
     (case windowVariance ii ii2 imageWidth wx wy winW winH of
        Num v \<Rightarrow> Num (sqrt (max v 1))
      | PInf \<Rightarrow> PInf
      | NInf \<Rightarrow> Num 1
      | NaN \<Rightarrow> NaN)"
  unfolding windowStdDev_def
  by (cases "windowVariance ii ii2 imageWidth wx wy winW winH") simp_all

lemma windowStdDev_Num:
  "windowVariance ii ii2 imageWidth wx wy winW winH = Num v \<Longrightarrow>
   windowStdDev ii ii2 imageWidth wx wy winW winH = Num (sqrt (max v 1))"
  unfolding windowStdDev_def by simp

lemma windowVariance_Num:
  assumes "rectSum ii imageWidth wx wy winW winH = Num s"
    and "rectSum ii2 imageWidth wx wy winW winH = Num q"
    and "winW * winH \<noteq> 0"
  shows "windowVariance ii ii2 imageWidth wx wy winW winH =
           Num (varianceOf s q (real_of_int (winW * winH)))"
  using assms by (simp add: windowVariance_def varianceOf_def jsub_def)

lemma windowInvArea_Num:
  "winW * winH \<noteq> 0 \<Longrightarrow> windowInvArea winW winH = Num (1 / real_of_int (winW * winH))"
  by (simp add: windowInvArea_def)

lemma rd_cell_finite:
  assumes fin: "list_all isFinite tbl" and len: "length tbl = width * height"
    and "j < height" "a < width"
  shows "\<exists>v. rd tbl (int j * int width + int a) = Num v"
proof -
  have k: "j * width + a < length tbl"
    using cell_index_less[of j height a width] assms by simp
  then have "isFinite (tbl ! (j * width + a))"
    using fin by (simp add: list_all_length)
  then obtain v where "tbl ! (j * width + a) = Num v"
    by (cases "tbl ! (j * width + a)") auto
  moreover have "rd tbl (int (j * width + a)) = tbl ! (j * width + a)"
    using k by (simp only: rd_nat if_True)
  ultimately show ?thesis by simp
qed

lemma rectSum_finite:
  assumes fin: "list_all isFinite tbl" and len: "length tbl = width * height"
    and geo: "0 \<le> x" "0 \<le> y" "0 < w" "0 < h" "x + w \<le> int width" "y + h \<le> int height"
  shows "\<exists>s. rectSum tbl width x y w h = Num s"
proof -
  define X Y X1 Y1 where "X = nat x" and "Y = nat y" and "X1 = nat (x + w - 1)" and "Y1 = nat (y + h - 1)"
  have xy: "x = int X" "y = int Y" and x2: "x + w - 1 = int X1" and y2: "y + h - 1 = int Y1"
    using geo by (simp_all add: X_def Y_def X1_def Y1_def)
  have bounds: "X \<le> X1" "Y \<le> Y1" "X1 < width" "Y1 < height"
    using geo by (simp_all add: X_def Y_def X1_def Y1_def nat_le_eq_zle nat_less_iff)
  obtain d where D: "rd tbl (int Y1 * int width + int X1) = Num d"
    using rd_cell_finite[OF fin len] bounds by blast
  obtain c where C: "(if x > 0 then rd tbl (int Y1 * int width + (x - 1)) else Num 0) = Num c"
  proof (cases X)
    case 0 then show ?thesis using xy that by simp
  next
    case (Suc X')
    then have "x - 1 = int X'" "X' < width" using xy bounds by auto
    then show ?thesis using rd_cell_finite[OF fin len, of Y1 X'] bounds Suc xy that by auto
  qed
  obtain b where B: "(if y > 0 then rd tbl ((y - 1) * int width + int X1) else Num 0) = Num b"
  proof (cases Y)
    case 0 then show ?thesis using xy that by simp
  next
    case (Suc Y')
    then have "y - 1 = int Y'" "Y' < height" using xy bounds by auto
    then show ?thesis using rd_cell_finite[OF fin len, of Y' X1] bounds Suc xy that by auto
  qed
  obtain a where A: "(if x > 0 \<and> y > 0 then rd tbl ((y - 1) * int width + (x - 1)) else Num 0) = Num a"
  proof (cases "X = 0 \<or> Y = 0")
    case True then show ?thesis using xy that by auto
  next
    case False
    then obtain X' Y' where s: "X = Suc X'" "Y = Suc Y'" by (metis not0_implies_Suc)
    then have "x - 1 = int X'" "X' < width" "y - 1 = int Y'" "Y' < height" using xy bounds by auto
    then show ?thesis using rd_cell_finite[OF fin len, of Y' X'] bounds s xy that by auto
  qed
  have "rectSum tbl width x y w h = Num (d - b - c + a)"
    using geo unfolding rectSum_def Let_def x2 y2 D C B A by (simp add: jsub_def)
  then show ?thesis by blast
qed

lemma sum_list_le_squares: "sum_list p \<le> sum_list (map (\<lambda>v. v * v) p)" for p :: "nat list"
proof (induction p)
  case Nil
  then show ?case by simp
next
  case (Cons v p)
  have "v \<le> v * v" by (cases v) simp_all
  from add_mono[OF this Cons.IH] show ?case by simp
qed

lemma flat_tables: "computeIntegralImage flatImage 2 2 = (flatSums, flatSquares)"
  unfolding flatSums_def flatSquares_def flatImage_def by code_simp

lemma flat_window_variance: "windowVariance flatSums flatSquares 2 0 0 2 2 = Num 0"
  by (simp add: windowVariance_def rectSum_def rd_def jsub_def flatSums_def flatSquares_def)

lemma flat_window_stdDev: "windowStdDev flatSums flatSquares 2 0 0 2 2 = Num 1"
  by (simp add: windowStdDev_def flat_window_variance)

lemma flat_window_rejected:
  "evaluateStage rejectingStage [emptyFeature] flatSums 2 0 0 1
     (windowInvArea 2 2) (windowStdDev flatSums flatSquares 2 0 0 2 2) = Inr False"
  by (simp add: flat_window_stdDev windowInvArea_def evaluateStage_def rejectingStage_def
        emptyFeature_def evaluateFeature_def)

lemma guarded_fields: "stages guardedCascade = [rejectingStage, brokenStage]"
  by (simp add: guardedCascade_def)

section \<open>The scan over positions and scales\<close>

lemma windowStep_ge_2: "2 \<le> windowStep winW"
  by (simp add: windowStep_def)

lemma gridCount_Suc:
  assumes "0 < step" "x \<le> limit"
  shows "gridCount step (limit - x) = Suc (gridCount step (limit - (x + step)))"
proof (cases "x + step \<le> limit")
  case True
  have "(limit - x) div step = ((limit - (x + step)) + step) div step" by simp
  also have "\<dots> = (limit - (x + step)) div step + 1"
    using assms by (subst div_add_self2) simp_all
  finally have "(limit - x) div step = (limit - (x + step)) div step + 1" .
  moreover have "0 \<le> (limit - (x + step)) div step"
    using True assms by (simp add: pos_imp_zdiv_nonneg_iff)
  ultimately show ?thesis using True assms by (simp add: gridCount_def nat_add_distrib)
next
  case False
  then have "(limit - x) div step = 0" using assms by (intro div_pos_pos_trivial) auto
  then show ?thesis using False assms by (simp add: gridCount_def)
qed

lemma stageLoop_wf:
  "list_all (\<lambda>st. list_all (\<lambda>wc. featureIndex wc < length features) (weakClassifiers st)) sts \<Longrightarrow>
   \<exists>b. fst (stageLoop features ii imageWidth wx wy scale invArea stdDev sts) = Inr b"
proof (induction sts)
  case Nil
  then show ?case by auto
next
  case (Cons st sts)
  then have "\<forall>wc\<in>set (weakClassifiers st). featureIndex wc < length features"
    by (simp add: list_all_iff)
  from evaluateStage_votes[OF this] Cons show ?case
    by (auto split: prod.splits)
qed

lemma evaluateCascade_wf:
  "cascade_wf cascade features \<Longrightarrow>
   evaluateCascade cascade features ii ii2 width x y scale winW winH =
     Inr (passes cascade features ii ii2 width scale winW winH y x)"
  using stageLoop_wf[of features "stages cascade" ii width x y scale "windowInvArea winW winH" "windowStdDev ii ii2 width x y winW winH"]
  by (auto simp: cascade_wf_def passes_def evaluateCascade_def)

lemma scanCols_grid:
  shows "cascade_wf cascade features \<Longrightarrow> scanCols cascade features ii ii2 width scale winW winH y x detections =
     Inr (detections @ map (mkDetection scale winW winH y)
            (filter (passes cascade features ii ii2 width scale winW winH y)
               (map (\<lambda>k. x + int k * windowStep winW)
                  [0..<gridCount (windowStep winW) (int width - winW - x)])))"
proof (induction cascade features ii ii2 width scale winW winH y x detections rule: scanCols.induct)
  case (1 cascade features ii ii2 width scale winW winH y x detections)
  let ?step = "windowStep winW"
  have step: "0 < ?step" using windowStep_ge_2[of winW] by simp
  show ?case
  proof (cases "x \<le> int width - winW")
    case True
    let ?b = "passes cascade features ii ii2 width scale winW winH y x"
    have ev: "evaluateCascade cascade features ii ii2 width x y scale winW winH = Inr ?b"
      using evaluateCascade_wf[OF "1.prems"] .
    have cnt: "gridCount ?step (int width - winW - x) =
        Suc (gridCount ?step (int width - winW - (x + ?step)))"
      using gridCount_Suc[OF step True] .
    have shift: "map (\<lambda>k. x + int k * ?step) [0..<Suc n] =
        x # map (\<lambda>k. x + ?step + int k * ?step) [0..<n]" for n
      by (simp add: map_upt_Suc algebra_simps del: upt_Suc)
    show ?thesis
      apply (subst scanCols.simps)
      using True ev "1.IH"[OF True ev "1.prems"]
      by (simp add: cnt shift mkDetection_def del: upt_Suc)
  next
    case False
    then show ?thesis
      by (subst scanCols.simps) (simp add: gridCount_def)
  qed
qed

lemma scanRows_grid:
  shows "cascade_wf cascade features \<Longrightarrow>
     scanRows cascade features ii ii2 width height scale winW winH y detections =
     Inr (detections @ concat (map (\<lambda>y'. map (mkDetection scale winW winH y')
            (filter (passes cascade features ii ii2 width scale winW winH y')
               (gridOrigins (windowStep winW) (int width - winW))))
            (map (\<lambda>k. y + int k * windowStep winW)
                  [0..<gridCount (windowStep winW) (int height - winH - y)])))"
proof (induction cascade features ii ii2 width height scale winW winH y detections rule: scanRows.induct)
  case (1 cascade features ii ii2 width height scale winW winH y detections)
  let ?step = "windowStep winW"
  have step: "0 < ?step" using windowStep_ge_2[of winW] by simp
  show ?case
  proof (cases "y \<le> int height - winH")
    case True
    let ?row = "detections @ map (mkDetection scale winW winH y)
            (filter (passes cascade features ii ii2 width scale winW winH y)
               (gridOrigins ?step (int width - winW)))"
    have cols: "scanCols cascade features ii ii2 width scale winW winH y 0 detections = Inr ?row"
      using scanCols_grid[OF "1.prems", of ii ii2 width scale winW winH y 0 detections]
      by (simp add: gridOrigins_def)
    have cnt: "gridCount ?step (int height - winH - y) =
        Suc (gridCount ?step (int height - winH - (y + ?step)))"
      using gridCount_Suc[OF step True] .
    have shift: "map (\<lambda>k. y + int k * ?step) [0..<Suc n] =
        y # map (\<lambda>k. y + ?step + int k * ?step) [0..<n]" for n
      by (simp add: map_upt_Suc algebra_simps del: upt_Suc)
    show ?thesis
      apply (subst scanRows.simps)
      using True cols "1.IH"[OF True cols "1.prems"]
      by (simp add: cnt shift del: upt_Suc)
  next
    case False
    then show ?thesis
      by (subst scanRows.simps) (simp add: gridCount_def)
  qed
qed





lemma scaleLoop_stop:
  "\<not> (jle (Num (baseWindowWidth cascade * scale)) maxSize
       \<and> jle (Num (baseWindowHeight cascade * scale)) maxSize) \<Longrightarrow>
   scaleLoop cascade features ii ii2 width height scaleFactor minSize maxSize scale detections
     = Some (Inr detections)"
  by (subst scaleLoop.simps) auto


lemma scale_exceeds:
  assumes sf: "1 < scaleFactor" and bw: "0 < baseWindowWidth cascade" and sc: "0 < scale"
  shows "\<exists>n. maxSize < baseWindowWidth cascade * scale * scaleFactor ^ n"
proof -
  obtain n where "maxSize / (baseWindowWidth cascade * scale) < scaleFactor ^ n"
    using real_arch_pow[OF sf] by blast
  then have "maxSize < baseWindowWidth cascade * scale * scaleFactor ^ n"
    using bw sc by (simp add: pos_divide_less_eq mult.commute)
  then show ?thesis by blast
qed


section \<open>Non-maximum suppression\<close>

text \<open>
  The divisions of \<open>computeIOU\<close> and \<open>calculateIoU\<close> are never divisions by zero: when
  the intersection is not empty both boxes have positive width and height, and the union
  is positive. The two functions compute the same number.
\<close>

lemma intersection_le_area:
  fixes xa ya wa ha xb yb wb hb :: int
  assumes "max 0 (min (xa + wa) (xb + wb) - max xa xb) * max 0 (min (ya + ha) (yb + hb) - max ya yb) \<noteq> 0"
  shows "0 < wa * ha + wb * hb
           - max 0 (min (xa + wa) (xb + wb) - max xa xb) * max 0 (min (ya + ha) (yb + hb) - max ya yb)"
proof -
  let ?iw = "max 0 (min (xa + wa) (xb + wb) - max xa xb)"
  let ?ih = "max 0 (min (ya + ha) (yb + hb) - max ya yb)"
  have nz: "?iw \<noteq> 0" "?ih \<noteq> 0" using assms by auto
  then have pos: "0 < ?iw" "0 < ?ih" by linarith+
  have "?iw \<le> wa" "?ih \<le> ha" "?iw \<le> wb" "?ih \<le> hb" using pos by linarith+
  then have "?iw * ?ih \<le> wa * ha" "0 < wb * hb" using pos
    by (auto intro!: mult_mono mult_pos_pos)
  then show ?thesis by linarith
qed

lemma computeIOU_union_pos:
  "max 0 (min (det_x a + det_w a) (det_x b + det_w b) - max (det_x a) (det_x b)) *
   max 0 (min (det_y a + det_h a) (det_y b + det_h b) - max (det_y a) (det_y b)) \<noteq> 0 \<Longrightarrow>
   0 < det_w a * det_h a + det_w b * det_h b -
       max 0 (min (det_x a + det_w a) (det_x b + det_w b) - max (det_x a) (det_x b)) *
       max 0 (min (det_y a + det_h a) (det_y b + det_h b) - max (det_y a) (det_y b))"
  by (rule intersection_le_area)

lemma calculateIoU_eq_computeIOU: "calculateIoU a b = computeIOU a b"
  by (simp add: calculateIoU_def computeIOU_def Let_def mult_le_0_iff)

lemma suppressLoop_eq:
  "suppressLoop ds thr i js S = S \<union> {j \<in> set js. computeIOU (ds ! i) (ds ! j) > thr}"
  by (induction js arbitrary: S) (auto simp: Let_def)

lemma keepLoop_greedy_aux:
  "keepLoop ds thr [i..<length ds] keep S =
     keep @ greedyKeep thr (map ((!) ds) (filter (\<lambda>j. j \<notin> S) [i..<length ds]))"
proof (induction "length ds - i" arbitrary: i keep S)
  case 0
  then show ?case by simp
next
  case (Suc k)
  then have i: "i < length ds" and k: "k = length ds - Suc i" by auto
  have up: "[i..<length ds] = i # [Suc i..<length ds]" using i by (simp add: upt_conv_Cons)
  show ?case
  proof (cases "i \<in> S")
    case True
    then show ?thesis using Suc.hyps(1)[OF k] by (simp add: up)
  next
    case False
    let ?S' = "suppressLoop ds thr i [Suc i..<length ds] S"
    have S': "?S' = S \<union> {j \<in> set [Suc i..<length ds]. computeIOU (ds ! i) (ds ! j) > thr}"
      by (rule suppressLoop_eq)
    have flt: "filter (\<lambda>j. j \<notin> ?S') [Suc i..<length ds] =
        filter (\<lambda>j. \<not> computeIOU (ds ! i) (ds ! j) > thr) (filter (\<lambda>j. j \<notin> S) [Suc i..<length ds])"
      unfolding S' by (auto intro: filter_cong)
    have "keepLoop ds thr [i..<length ds] keep S =
        keepLoop ds thr [Suc i..<length ds] (keep @ [ds ! i]) ?S'"
      using False by (simp add: up)
    also have "\<dots> = (keep @ [ds ! i]) @ greedyKeep thr (map ((!) ds) (filter (\<lambda>j. j \<notin> ?S') [Suc i..<length ds]))"
      by (rule Suc.hyps(1)[OF k])
    also have "\<dots> = keep @ greedyKeep thr (map ((!) ds) (filter (\<lambda>j. j \<notin> S) [i..<length ds]))"
      using False by (simp add: up flt filter_map comp_def)
    finally show ?thesis .
  qed
qed

lemma nonMaximumSuppression_greedy:
  "nonMaximumSuppression ds thr = greedyKeep thr (sortByArea ds)"
proof (cases "ds = []")
  case True
  then show ?thesis by (simp add: nonMaximumSuppression_def sortByArea_def)
next
  case False
  have "keepLoop (sortByArea ds) thr [0..<length (sortByArea ds)] [] {} =
      greedyKeep thr (map ((!) (sortByArea ds)) [0..<length (sortByArea ds)])"
    using keepLoop_greedy_aux[of "sortByArea ds" thr 0 "[]" "{}"] by simp
  then show ?thesis using False by (simp add: nonMaximumSuppression_def map_nth)
qed

lemma greedyKeep_subset: "set (greedyKeep thr ds) \<subseteq> set ds"
  by (induction thr ds rule: greedyKeep.induct) auto

lemma greedyKeep_separated:
  "sorted_wrt (\<lambda>d e. \<not> computeIOU d e > thr) (greedyKeep thr ds)"
proof (induction thr ds rule: greedyKeep.induct)
  case (1 thr)
  then show ?case by simp
next
  case (2 thr d ds)
  then show ?case using greedyKeep_subset[of thr "filter (\<lambda>e. \<not> computeIOU d e > thr) ds"]
    by auto
qed

lemma greedyKeep_id:
  "sorted_wrt (\<lambda>d e. \<not> computeIOU d e > thr) ds \<Longrightarrow> greedyKeep thr ds = ds"
  by (induction ds) (auto simp: filter_id_conv)

lemma greedyKeep_sorted:
  "sorted (map f ds) \<Longrightarrow> sorted (map f (greedyKeep thr ds))"
proof (induction thr ds rule: greedyKeep.induct)
  case (1 thr)
  then show ?case by simp
next
  case (2 thr d ds)
  have "sorted (map f (filter (\<lambda>e. \<not> computeIOU d e > thr) ds))"
    using "2.prems" by (simp add: sorted_filter)
  from "2.IH"[OF this] "2.prems" greedyKeep_subset[of thr "filter (\<lambda>e. \<not> computeIOU d e > thr) ds"]
  show ?case by auto
qed

lemma sortByArea_sorted: "sorted (map (\<lambda>d. - (det_w d * det_h d)) (sortByArea ds))"
  by (simp add: sortByArea_def)

lemma nonMaximumSuppression_idem:
  "nonMaximumSuppression (nonMaximumSuppression ds thr) thr = nonMaximumSuppression ds thr"
proof -
  let ?out = "greedyKeep thr (sortByArea ds)"
  have "sorted (map (\<lambda>d. - (det_w d * det_h d)) ?out)"
    using sortByArea_sorted by (rule greedyKeep_sorted)
  then have "sortByArea ?out = ?out"
    unfolding sortByArea_def by (rule sort_key_id_if_sorted)
  moreover have "greedyKeep thr ?out = ?out"
    using greedyKeep_separated by (rule greedyKeep_id)
  ultimately show ?thesis by (simp add: nonMaximumSuppression_greedy)
qed

lemma computeIOU_sym: "computeIOU a b = computeIOU b a"
  by (simp add: computeIOU_def Let_def max.commute min.commute add.commute)

lemma nonMaximumSuppression_separated:
  assumes "i < length (nonMaximumSuppression ds thr)" "j < length (nonMaximumSuppression ds thr)" "i \<noteq> j"
  shows "computeIOU (nonMaximumSuppression ds thr ! i) (nonMaximumSuppression ds thr ! j) \<le> thr"
proof -
  have sep: "sorted_wrt (\<lambda>d e. \<not> computeIOU d e > thr) (nonMaximumSuppression ds thr)"
    unfolding nonMaximumSuppression_greedy by (rule greedyKeep_separated)
  show ?thesis
  proof (cases "i < j")
    case True
    from sorted_wrt_nth_less[OF sep this assms(2)] show ?thesis by simp
  next
    case False
    then have "j < i" using assms by simp
    then have "\<not> computeIOU (nonMaximumSuppression ds thr ! j) (nonMaximumSuppression ds thr ! i) > thr"
      using sorted_wrt_nth_less[OF sep _ assms(1)] by simp
    then show ?thesis by (simp add: computeIOU_sym[of "nonMaximumSuppression ds thr ! i"])
  qed
qed


lemma scenarioB_iou: "computeIOU firstBoxB secondBoxB = 8100 / 11900"
  by (simp add: computeIOU_def firstBoxB_def secondBoxB_def)

lemma scenarioB: "nonMaximumSuppression [firstBoxB, secondBoxB] (3 / 10) = [firstBoxB]"
  by (simp add: nonMaximumSuppression_greedy sortByArea_def scenarioB_iou)
     (simp add: firstBoxB_def secondBoxB_def)

lemma sortByArea_stable:
  "filter (\<lambda>d. det_w d * det_h d = k) (sortByArea ds) = filter (\<lambda>d. det_w d * det_h d = k) ds"
  using sort_key_stable[of "\<lambda>d. - (det_w d * det_h d)" "- k" ds]
  by (simp add: sortByArea_def)

text \<open>
  Claim C7. Any two detections at distinct positions of the list that
  \<open>nonMaximumSuppression\<close> keeps, with overlap threshold 0.3, have IoU at most 0.3. The
  kept list is the greedy walk of the detections sorted by area, largest first, and the
  sort keeps detections of equal area in their original order. For the two detections of
  Scenario B, of equal area and IoU 81/119 (about 0.68), exactly the first is kept.
\<close>

theorem nonMaximumSuppression_invariant:
  "(\<forall>i j. i < length (nonMaximumSuppression ds (3 / 10)) \<and>
          j < length (nonMaximumSuppression ds (3 / 10)) \<and> i \<noteq> j \<longrightarrow>
      computeIOU (nonMaximumSuppression ds (3 / 10) ! i) (nonMaximumSuppression ds (3 / 10) ! j)
        \<le> 3 / 10) \<and>
   nonMaximumSuppression ds (3 / 10) = greedyKeep (3 / 10) (sortByArea ds) \<and>
   sorted (map (\<lambda>d. - (det_w d * det_h d)) (sortByArea ds)) \<and>
   (\<forall>k. filter (\<lambda>d. det_w d * det_h d = k) (sortByArea ds) =
        filter (\<lambda>d. det_w d * det_h d = k) ds) \<and>
   det_w firstBoxB * det_h firstBoxB = det_w secondBoxB * det_h secondBoxB \<and>
   computeIOU firstBoxB secondBoxB = 81 / 119 \<and>
   nonMaximumSuppression [firstBoxB, secondBoxB] (3 / 10) = [firstBoxB]"
proof -
  have "computeIOU firstBoxB secondBoxB = 81 / 119" by (simp add: scenarioB_iou)
  moreover have "det_w firstBoxB * det_h firstBoxB = det_w secondBoxB * det_h secondBoxB"
    by (simp add: firstBoxB_def secondBoxB_def)
  ultimately show ?thesis
    using nonMaximumSuppression_separated[of _ ds "3 / 10"] nonMaximumSuppression_greedy[of ds "3 / 10"]
      sortByArea_sorted[of ds] sortByArea_stable[of _ ds] scenarioB
    by (intro conjI allI impI) auto
qed

lemma three_boxes: "nonMaximumSuppression [distantBoxB, firstBoxB, secondBoxB] (3 / 10) = [firstBoxB, distantBoxB]"
  by (simp add: nonMaximumSuppression_greedy sortByArea_def scenarioB_iou)
     (simp add: firstBoxB_def secondBoxB_def distantBoxB_def computeIOU_def)

theorem nonMaximumSuppression_invariant_witness:
  "nonMaximumSuppression [distantBoxB, firstBoxB, secondBoxB] (3 / 10) = [firstBoxB, distantBoxB] \<and>
   (0::nat) < length [firstBoxB, distantBoxB] \<and> (1::nat) < length [firstBoxB, distantBoxB] \<and> (0::nat) \<noteq> 1 \<and>
   computeIOU firstBoxB distantBoxB \<le> 3 / 10"
  using nonMaximumSuppression_invariant[of "[distantBoxB, firstBoxB, secondBoxB]", THEN conjunct1, rule_format, of 0 1]
  by (simp add: three_boxes)

text \<open>
  Claim C8. Non-maximum suppression is idempotent: applied to its own output it returns
  that output, as a list and so as a set.
\<close>

theorem nonMaximumSuppression_idempotent:
  "nonMaximumSuppression (nonMaximumSuppression ds overlapThreshold) overlapThreshold =
     nonMaximumSuppression ds overlapThreshold \<and>
   set (nonMaximumSuppression (nonMaximumSuppression ds overlapThreshold) overlapThreshold) =
     set (nonMaximumSuppression ds overlapThreshold)"
  by (simp add: nonMaximumSuppression_idem)

theorem nonMaximumSuppression_idempotent_witness:
  "nonMaximumSuppression [distantBoxB, firstBoxB, secondBoxB] (3 / 10) = [firstBoxB, distantBoxB] \<and>
   nonMaximumSuppression [firstBoxB, distantBoxB] (3 / 10) = [firstBoxB, distantBoxB]"
  using nonMaximumSuppression_idempotent[of "[distantBoxB, firstBoxB, secondBoxB]" "3 / 10"]
  by (simp add: three_boxes)

section \<open>The temporal selector\<close>

lemma fold_pickLarger:
  "fold pickLarger ds d \<in> set (d # ds) \<and>
   (\<forall>e\<in>set (d # ds). det_w e * det_h e \<le> det_w (fold pickLarger ds d) * det_h (fold pickLarger ds d))"
proof (induction ds arbitrary: d)
  case Nil
  then show ?case by simp
next
  case (Cons c ds)
  show ?case
    using Cons.IH[of "pickLarger c d"]
    by (auto simp: pickLarger_def split: if_splits)
qed

lemma matchStep_apply:
  "matchStep p c (bm, bs) =
     (if calculateIoU p c > bs then (Some c, calculateIoU p c) else (bm, bs))"
  by (simp add: matchStep_def)

lemma fold_matchStep:
  "fold (matchStep p) ds (bm, bs) = (bm', bs') \<Longrightarrow>
   bs \<le> bs' \<and> (\<forall>e\<in>set ds. calculateIoU p e \<le> bs') \<and>
   (bs < bs' \<longrightarrow> (\<exists>d\<in>set ds. bm' = Some d \<and> calculateIoU p d = bs')) \<and>
   (bs' = bs \<longrightarrow> bm' = bm)"
proof (induction ds arbitrary: bm bs)
  case Nil
  then show ?case by simp
next
  case (Cons c ds)
  show ?case
  proof (cases "calculateIoU p c > bs")
    case True
    then have "fold (matchStep p) ds (Some c, calculateIoU p c) = (bm', bs')"
      using Cons.prems by (simp add: matchStep_apply)
    from Cons.IH[OF this] True show ?thesis by (auto simp: less_le)
  next
    case False
    then have "fold (matchStep p) ds (bm, bs) = (bm', bs')"
      using Cons.prems by (simp add: matchStep_apply)
    from Cons.IH[OF this] False show ?thesis by auto
  qed
qed

text \<open>
  Claim C9. \<open>selectBestFace\<close> returns none iff the candidate list is empty. With
  candidates and no previous box it returns a candidate of largest area. With a previous
  box it returns a candidate of maximum IoU with that box when the best IoU is at least
  0.1, and a candidate of largest area when every IoU is below 0.1.
\<close>

theorem selectBestFace_correct:
  "(selectBestFace ds prev = None \<longleftrightarrow> ds = []) \<and>
   (ds \<noteq> [] \<longrightarrow>
      (\<exists>d\<in>set ds. selectBestFace ds None = Some d \<and>
          (\<forall>e\<in>set ds. det_w e * det_h e \<le> det_w d * det_h d))) \<and>
   (ds \<noteq> [] \<and> (\<exists>e\<in>set ds. 1 / 10 \<le> calculateIoU p e) \<longrightarrow>
      (\<exists>d\<in>set ds. selectBestFace ds (Some p) = Some d \<and>
          (\<forall>e\<in>set ds. calculateIoU p e \<le> calculateIoU p d))) \<and>
   (ds \<noteq> [] \<and> (\<forall>e\<in>set ds. calculateIoU p e < 1 / 10) \<longrightarrow>
      (\<exists>d\<in>set ds. selectBestFace ds (Some p) = Some d \<and>
          (\<forall>e\<in>set ds. det_w e * det_h e \<le> det_w d * det_h d)))"
proof (cases ds)
  case Nil
  then show ?thesis by simp
next
  case (Cons c cs)
  let ?big = "fold pickLarger cs c"
  have big: "?big \<in> set ds" "\<forall>e\<in>set ds. det_w e * det_h e \<le> det_w ?big * det_h ?big"
    using fold_pickLarger[of cs c] Cons by simp_all
  obtain bm bs where f: "fold (matchStep p) ds (None, 0) = (bm, bs)"
    by (cases "fold (matchStep p) ds (None, 0)") auto
  note m = fold_matchStep[OF f]
  have sel: "selectBestFace ds (Some p) = (if bm = None \<or> bs < 0.1 then Some ?big else bm)"
    using f Cons by simp
  have none: "selectBestFace ds prev \<noteq> None"
  proof (cases prev)
    case None
    then show ?thesis using Cons by simp
  next
    case (Some q)
    obtain bm2 bs2 where f2: "fold (matchStep q) ds (None, 0) = (bm2, bs2)"
      by (cases "fold (matchStep q) ds (None, 0)") auto
    then show ?thesis using Some Cons by (auto split: if_splits)
  qed
  have largest: "\<exists>d\<in>set ds. selectBestFace ds None = Some d \<and>
          (\<forall>e\<in>set ds. det_w e * det_h e \<le> det_w d * det_h d)"
    using big Cons by auto
  have strong: "\<exists>d\<in>set ds. selectBestFace ds (Some p) = Some d \<and>
          (\<forall>e\<in>set ds. calculateIoU p e \<le> calculateIoU p d)"
    if "\<exists>e\<in>set ds. 1 / 10 \<le> calculateIoU p e"
  proof -
    from that m have bs: "1 / 10 \<le> bs" by force
    then have "0 < bs" by simp
    with m obtain d where d: "d \<in> set ds" "bm = Some d" "calculateIoU p d = bs" by auto
    then show ?thesis using sel bs m by auto
  qed
  have weak: "\<exists>d\<in>set ds. selectBestFace ds (Some p) = Some d \<and>
          (\<forall>e\<in>set ds. det_w e * det_h e \<le> det_w d * det_h d)"
    if w: "\<forall>e\<in>set ds. calculateIoU p e < 1 / 10"
  proof -
    have "bm = None \<or> bs < 0.1"
    proof (cases "0 < bs")
      case True
      with m obtain d where "d \<in> set ds" "calculateIoU p d = bs" by auto
      with w show ?thesis by auto
    next
      case False
      with m have "bs = 0" by simp
      with m show ?thesis by simp
    qed
    then show ?thesis using sel big by auto
  qed
  from none largest strong weak Cons show ?thesis by blast
qed

lemma scenarioC_near: "calculateIoU previousBoxC nearBoxC = 3422 / 3600"
  by (simp add: calculateIoU_def previousBoxC_def nearBoxC_def)

lemma scenarioC_far: "calculateIoU previousBoxC farBoxC = 0"
  by (simp add: calculateIoU_def previousBoxC_def farBoxC_def)

lemma scenarioC: "selectBestFace [nearBoxC, farBoxC] (Some previousBoxC) = Some nearBoxC"
  by (simp add: matchStep_apply scenarioC_near scenarioC_far)

lemma scenarioC_corner:
  "calculateIoU cornerBox nearBoxC = 0" "calculateIoU cornerBox farBoxC = 0"
  by (simp_all add: calculateIoU_def cornerBox_def nearBoxC_def farBoxC_def)

lemma scenarioC_fallback: "selectBestFace [nearBoxC, farBoxC] (Some cornerBox) = Some farBoxC"
  by (simp add: matchStep_apply scenarioC_corner pickLarger_def) (simp add: nearBoxC_def farBoxC_def)

lemma scenarioC_largest: "selectBestFace [nearBoxC, farBoxC] None = Some farBoxC"
  by (simp add: pickLarger_def) (simp add: nearBoxC_def farBoxC_def)

theorem selectBestFace_correct_witness:
  "[nearBoxC, farBoxC] \<noteq> [] \<and>
   1 / 10 \<le> calculateIoU previousBoxC nearBoxC \<and>
   selectBestFace [nearBoxC, farBoxC] (Some previousBoxC) = Some nearBoxC \<and>
   calculateIoU previousBoxC farBoxC \<le> calculateIoU previousBoxC nearBoxC \<and>
   calculateIoU cornerBox nearBoxC < 1 / 10 \<and> calculateIoU cornerBox farBoxC < 1 / 10 \<and>
   selectBestFace [nearBoxC, farBoxC] (Some cornerBox) = Some farBoxC \<and>
   det_w nearBoxC * det_h nearBoxC \<le> det_w farBoxC * det_h farBoxC \<and>
   selectBestFace [nearBoxC, farBoxC] None = Some farBoxC"
proof -
  have near: "1 / 10 \<le> calculateIoU previousBoxC nearBoxC"
    and far: "calculateIoU previousBoxC farBoxC \<le> calculateIoU previousBoxC nearBoxC"
    and corner: "calculateIoU cornerBox nearBoxC < 1 / 10" "calculateIoU cornerBox farBoxC < 1 / 10"
    by (simp_all add: scenarioC_near scenarioC_far scenarioC_corner)
  have areas: "det_w nearBoxC * det_h nearBoxC \<le> det_w farBoxC * det_h farBoxC"
    by (simp add: nearBoxC_def farBoxC_def)
  note t = selectBestFace_correct[of "[nearBoxC, farBoxC]" "Some previousBoxC" previousBoxC]
  from t near far corner areas scenarioC scenarioC_fallback scenarioC_largest
  show ?thesis by blast
qed

section \<open>detectFaces\<close>

lemma detectFaces_unfold:
  "detectFaces gray width height cascade features opts =
     (if baseWindowWidth cascade = 0 \<or> baseWindowHeight cascade = 0 then Some (Inr [])
      else map_option (map_sum id (\<lambda>ds. nonMaximumSuppression ds (3 / 10)))
             (scaleLoop cascade features (fst (computeIntegralImage gray width height))
                (snd (computeIntegralImage gray width height)) width height
                (scaleFactorOf opts) (minSizeOf cascade opts) (maxSizeOf width height opts) 1 []))"
  by (simp add: detectFaces_def scaleFactorOf_def minSizeOf_def maxSizeOf_def Let_def
        split: option.splits sum.splits)




lemma jround_le: "real_of_int (jround r) \<le> r + 1 / 2"
  unfolding jround_def by (rule of_int_floor_le)

lemma scaleLoop_all_skipped:
  assumes sf: "1 < scaleFactor" and bw: "0 < baseWindowWidth cascade"
    and gap: "jlt (jadd maxSize (Num (1 / 2))) (Num minSize)"
    and sc: "0 < scale"
  shows "scaleLoop cascade features ii ii2 width height scaleFactor minSize maxSize scale detections
           = Some (Inr detections)"
proof (cases maxSize)
  case (Num m)
  with gap have gap': "m + 1 / 2 < minSize" by simp
  have aux: "0 < scale \<Longrightarrow> m < baseWindowWidth cascade * scale * scaleFactor ^ n \<Longrightarrow>
     scaleLoop cascade features ii ii2 width height scaleFactor minSize (Num m) scale detections
           = Some (Inr detections)" for n scale
  proof (induction n arbitrary: scale)
    case 0
    then show ?case by (subst scaleLoop.simps) simp
  next
    case (Suc n)
    have pos: "0 < scale * scaleFactor" using Suc.prems sf by simp
    have bound: "m < baseWindowWidth cascade * (scale * scaleFactor) * scaleFactor ^ n"
      using Suc.prems by (simp add: mult.assoc)
    note IH = Suc.IH[OF pos bound]
    have skip: "real_of_int (jround (baseWindowWidth cascade * scale)) < minSize"
      if "baseWindowWidth cascade * scale \<le> m"
      using that gap' jround_le[of "baseWindowWidth cascade * scale"] by linarith
    show ?case
      apply (subst scaleLoop.simps)
      using IH skip by auto
  qed
  from scale_exceeds[OF sf bw sc] obtain n where
    "m < baseWindowWidth cascade * scale * scaleFactor ^ n" by blast
  from aux[OF sc this] show ?thesis unfolding Num .
next
  case PInf
  with gap show ?thesis by simp
next
  case NInf
  then show ?thesis using scaleLoop_stop[of cascade scale maxSize] by simp
next
  case NaN
  with gap show ?thesis by simp
qed

lemma scaleLoop_no_error:
  assumes run: "scaleLoop cascade features ii ii2 width height scaleFactor minSize maxSize scale detections = Some r"
    and wf: "cascade_wf cascade features"
  shows "\<exists>out. r = Inr out"
proof -
  have "cascade_wf cascade features \<longrightarrow> (\<exists>out. r = Inr out)"
  proof (rule scaleLoop.raw_induct[where P = "\<lambda>cascade features ii ii2 width height scaleFactor minSize maxSize scale detections r.
       cascade_wf cascade features \<longrightarrow> (\<exists>out. r = Inr out)", OF _ run])
    fix loop :: "cascade \<Rightarrow> haarFeature list \<Rightarrow> jsnum list \<Rightarrow> jsnum list \<Rightarrow> nat \<Rightarrow> nat \<Rightarrow> real \<Rightarrow> real \<Rightarrow> jsnum
     \<Rightarrow> real \<Rightarrow> detection list \<Rightarrow> (error + detection list) option"
    fix cascade features ii ii2 width height scaleFactor minSize maxSize scale detections r
    assume IH: "\<And>cascade features ii ii2 width height scaleFactor minSize maxSize scale detections r.
        loop cascade features ii ii2 width height scaleFactor minSize maxSize scale detections = Some r \<Longrightarrow>
        cascade_wf cascade features \<longrightarrow> (\<exists>out. r = Inr out)"
    assume body: "(if jle (Num (baseWindowWidth cascade * scale)) maxSize \<and> jle (Num (baseWindowHeight cascade * scale)) maxSize
      then
        if real_of_int (jround (baseWindowWidth cascade * scale)) < minSize
           \<or> real_of_int (jround (baseWindowHeight cascade * scale)) < minSize
        then loop cascade features ii ii2 width height scaleFactor minSize maxSize
               (scale * scaleFactor) detections
        else
          (case scanRows cascade features ii ii2 width height scale
                  (jround (baseWindowWidth cascade * scale))
                  (jround (baseWindowHeight cascade * scale)) 0 detections of
             Inl e \<Rightarrow> Some (Inl e)
           | Inr detections' \<Rightarrow>
               loop cascade features ii ii2 width height scaleFactor minSize maxSize
                 (scale * scaleFactor) detections')
      else Some (Inr detections)) = Some r"
    show "cascade_wf cascade features \<longrightarrow> (\<exists>out. r = Inr out)"
    proof
      assume wf: "cascade_wf cascade features"
      obtain ds where scan: "scanRows cascade features ii ii2 width height scale
                  (jround (baseWindowWidth cascade * scale))
                  (jround (baseWindowHeight cascade * scale)) 0 detections = Inr ds"
        using scanRows_grid[OF wf] by blast
      from body IH wf show "\<exists>out. r = Inr out"
        unfolding scan by (auto split: if_splits)
    qed
  qed
  with wf show ?thesis by simp
qed

lemma scaleLoop_diverges:
  assumes wf: "cascade_wf cascade features"
    and fits: "jle (Num (baseWindowWidth cascade * scale)) maxSize"
      "jle (Num (baseWindowHeight cascade * scale)) maxSize"
  shows "scaleLoop cascade features ii ii2 width height 1 minSize maxSize scale detections = None"
proof (rule ccontr)
  assume "scaleLoop cascade features ii ii2 width height 1 minSize maxSize scale detections \<noteq> None"
  then obtain r where run: "scaleLoop cascade features ii ii2 width height 1 minSize maxSize scale detections = Some r"
    by auto
  have "\<not> (cascade_wf cascade features \<and> (1::real) = 1 \<and>
      jle (Num (baseWindowWidth cascade * scale)) maxSize \<and> jle (Num (baseWindowHeight cascade * scale)) maxSize)"
  proof (rule scaleLoop.raw_induct[where P = "\<lambda>cascade features ii ii2 width height scaleFactor minSize maxSize scale detections r.
       \<not> (cascade_wf cascade features \<and> scaleFactor = 1 \<and>
      jle (Num (baseWindowWidth cascade * scale)) maxSize \<and> jle (Num (baseWindowHeight cascade * scale)) maxSize)", OF _ run])
    fix loop :: "cascade \<Rightarrow> haarFeature list \<Rightarrow> jsnum list \<Rightarrow> jsnum list \<Rightarrow> nat \<Rightarrow> nat \<Rightarrow> real \<Rightarrow> real \<Rightarrow> jsnum
     \<Rightarrow> real \<Rightarrow> detection list \<Rightarrow> (error + detection list) option"
    fix cascade features ii ii2 width height scaleFactor minSize maxSize scale detections
    fix r :: "error + detection list"
    assume IH: "\<And>cascade features ii ii2 width height scaleFactor minSize maxSize scale detections r.
        loop cascade features ii ii2 width height scaleFactor minSize maxSize scale detections = Some r \<Longrightarrow>
        \<not> (cascade_wf cascade features \<and> scaleFactor = 1 \<and>
      jle (Num (baseWindowWidth cascade * scale)) maxSize \<and> jle (Num (baseWindowHeight cascade * scale)) maxSize)"
    assume body: "(if jle (Num (baseWindowWidth cascade * scale)) maxSize \<and> jle (Num (baseWindowHeight cascade * scale)) maxSize
      then
        if real_of_int (jround (baseWindowWidth cascade * scale)) < minSize
           \<or> real_of_int (jround (baseWindowHeight cascade * scale)) < minSize
        then loop cascade features ii ii2 width height scaleFactor minSize maxSize
               (scale * scaleFactor) detections
        else
          (case scanRows cascade features ii ii2 width height scale
                  (jround (baseWindowWidth cascade * scale))
                  (jround (baseWindowHeight cascade * scale)) 0 detections of
             Inl e \<Rightarrow> Some (Inl e)
           | Inr detections' \<Rightarrow>
               loop cascade features ii ii2 width height scaleFactor minSize maxSize
                 (scale * scaleFactor) detections')
      else Some (Inr detections)) = Some r"
    show "\<not> (cascade_wf cascade features \<and> scaleFactor = 1 \<and>
      jle (Num (baseWindowWidth cascade * scale)) maxSize \<and> jle (Num (baseWindowHeight cascade * scale)) maxSize)"
    proof
      assume h: "cascade_wf cascade features \<and> scaleFactor = 1 \<and>
        jle (Num (baseWindowWidth cascade * scale)) maxSize \<and> jle (Num (baseWindowHeight cascade * scale)) maxSize"
      obtain ds where scan: "scanRows cascade features ii ii2 width height scale
                  (jround (baseWindowWidth cascade * scale))
                  (jround (baseWindowHeight cascade * scale)) 0 detections = Inr ds"
        using scanRows_grid h by blast
      from body h have "\<exists>ds'. loop cascade features ii ii2 width height scaleFactor minSize maxSize
               scale ds' = Some r"
        unfolding scan by (auto split: if_splits)
      then obtain ds' where "loop cascade features ii ii2 width height scaleFactor minSize maxSize
               scale ds' = Some r" by blast
      from IH[OF this] h show False by simp
    qed
  qed
  with wf fits show False by simp
qed



lemma jround_2: "jround 2 = 2" "jround (2 * 1) = 2"
  by (simp_all add: jround_def)

lemma windowStep_2: "windowStep 2 = 2"
  by (simp add: windowStep_def)

lemma nonMaximumSuppression_single: "nonMaximumSuppression [d] thr = [d]"
  by (simp add: nonMaximumSuppression_greedy sortByArea_def)



lemma open_fields:
  "baseWindowWidth openCascade = 2" "baseWindowHeight openCascade = 2" "stages openCascade = []"
  by (simp_all add: openCascade_def)

lemma cascade_wf_open: "cascade_wf openCascade fs"
  by (simp add: cascade_wf_def open_fields)

















lemma loop_inverted:
  "scaleLoop openCascade [] ii ii2 2 2 2 5 (Num 3) 1 [] = Some (Inr [])"
  apply (subst scaleLoop.simps)
  apply (simp add: open_fields jround_2)
  apply (subst scaleLoop.simps)
  apply (simp add: open_fields)
  done

lemma detect_inverted:
  "detectFaces flatImage 2 2 openCascade [] invertedOptions = Some (Inr [])"
  by (simp add: detectFaces_unfold scaleFactorOf_def minSizeOf_def maxSizeOf_def invertedOptions_def
        open_fields loop_inverted nonMaximumSuppression_def)

lemma fractional_fields:
  "baseWindowWidth fractionalCascade = 8 / 5" "baseWindowHeight fractionalCascade = 8 / 5"
  "stages fractionalCascade = []"
  by (simp_all add: fractionalCascade_def)

lemma jround_fractional: "jround (8 / 5) = 2"
  by (simp add: jround_def)

lemma scan_fractional:
  "scanRows fractionalCascade [] ii ii2 2 2 1 2 2 0 [] = Inr [fullWindow]"
  by (simp add: scanRows.simps scanCols.simps evaluateCascade_def fractional_fields
        windowStep_2 fullWindow_def)

lemma loop_fractional:
  "scaleLoop fractionalCascade [] ii ii2 2 2 2 (9 / 5) (Num (17 / 10)) 1 [] = Some (Inr [fullWindow])"
  apply (subst scaleLoop.simps)
  apply (simp add: fractional_fields jround_fractional scan_fractional)
  apply (subst scaleLoop.simps)
  apply (simp add: fractional_fields)
  done

lemma detect_fractional:
  "detectFaces flatImage 2 2 fractionalCascade [] fractionalOptions = Some (Inr [fullWindow])"
  by (simp add: detectFaces_unfold scaleFactorOf_def minSizeOf_def maxSizeOf_def fractionalOptions_def
        fractional_fields loop_fractional nonMaximumSuppression_single)

lemma detect_constant:
  "detectFaces flatImage 2 2 openCascade [] constantOptions = None"
  by (simp add: detectFaces_unfold scaleFactorOf_def minSizeOf_def maxSizeOf_def constantOptions_def
        open_fields scaleLoop_diverges cascade_wf_open)

text \<open>
  Claim C1 (not met by the code). \<open>detectFaces\<close> performs no check of the options. With
  \<open>minSize = 5 > maxSize = 3\<close> it returns the empty list; with
  \<open>minSize = 1.8 > maxSize = 1.7\<close> and a base window of 1.6, whose rounded size is 2, it
  scans and returns a detection; with \<open>scaleFactor = 1\<close> it does not return.
\<close>

theorem detectFaces_accepts_invalid_configuration:
  "opt_minSize invertedOptions = Some 5 \<and> opt_maxSize invertedOptions = Some (Num 3) \<and>
   detectFaces flatImage 2 2 openCascade [] invertedOptions = Some (Inr []) \<and>
   opt_minSize fractionalOptions = Some (9 / 5) \<and>
   opt_maxSize fractionalOptions = Some (Num (17 / 10)) \<and>
   detectFaces flatImage 2 2 fractionalCascade [] fractionalOptions = Some (Inr [fullWindow]) \<and>
   opt_scaleFactor constantOptions = Some 1 \<and>
   detectFaces flatImage 2 2 openCascade [] constantOptions = None"
  by (simp add: detect_inverted detect_fractional detect_constant)
     (simp add: invertedOptions_def fractionalOptions_def constantOptions_def)

text \<open>
  Claim C1 as amended. \<open>detectFaces\<close> reports no configuration error: for a cascade
  whose feature indices are in the table its result is never an error. With
  \<open>scaleFactor > 1\<close>, positive base window dimensions and \<open>minSize > maxSize + 1/2\<close>, so
  that no rounded window size reaches \<open>minSize\<close>, every scale is skipped and the result
  is the empty list, for every cascade and feature table: no window is evaluated. (The
  comparison is that of numbers: it holds for no \<open>maxSize\<close> that is \<open>Infinity\<close> or
  \<open>NaN\<close>.)
\<close>

theorem detectFaces_without_validation:
  "(cascade_wf cascade features \<longrightarrow>
      (\<forall>e. detectFaces gray width height cascade features opts \<noteq> Some (Inl e))) \<and>
   (1 < scaleFactorOf opts \<and> 0 < baseWindowWidth cascade \<and> 0 < baseWindowHeight cascade \<and>
    jlt (jadd (maxSizeOf width height opts) (Num (1 / 2))) (Num (minSizeOf cascade opts)) \<longrightarrow>
      detectFaces gray width height cascade features opts = Some (Inr []))"
proof (intro conjI impI allI)
  fix e
  assume wf: "cascade_wf cascade features"
  show "detectFaces gray width height cascade features opts \<noteq> Some (Inl e)"
  proof
    assume run: "detectFaces gray width height cascade features opts = Some (Inl e)"
    then have nz: "\<not> (baseWindowWidth cascade = 0 \<or> baseWindowHeight cascade = 0)"
      by (auto simp: detectFaces_unfold)
    with run obtain z where z: "scaleLoop cascade features (fst (computeIntegralImage gray width height))
                (snd (computeIntegralImage gray width height)) width height
                (scaleFactorOf opts) (minSizeOf cascade opts) (maxSizeOf width height opts) 1 [] = Some z"
      "map_sum id (\<lambda>ds. nonMaximumSuppression ds (3 / 10)) z = Inl e"
      by (auto simp: detectFaces_unfold)
    from scaleLoop_no_error[OF z(1) wf] z(2) show False by auto
  qed
next
  assume h: "1 < scaleFactorOf opts \<and> 0 < baseWindowWidth cascade \<and> 0 < baseWindowHeight cascade \<and>
    jlt (jadd (maxSizeOf width height opts) (Num (1 / 2))) (Num (minSizeOf cascade opts))"
  then have "scaleLoop cascade features (fst (computeIntegralImage gray width height))
                (snd (computeIntegralImage gray width height)) width height
                (scaleFactorOf opts) (minSizeOf cascade opts) (maxSizeOf width height opts) 1 [] = Some (Inr [])"
    by (intro scaleLoop_all_skipped) simp_all
  then show "detectFaces gray width height cascade features opts = Some (Inr [])"
    using h by (simp add: detectFaces_unfold nonMaximumSuppression_def)
qed

theorem detectFaces_without_validation_witness:
  "cascade_wf openCascade [] \<and>
   detectFaces flatImage 2 2 openCascade [] invertedOptions \<noteq> Some (Inl TypeError) \<and>
   (1 < scaleFactorOf invertedOptions \<and> 0 < baseWindowWidth openCascade \<and>
    0 < baseWindowHeight openCascade \<and>
    jlt (jadd (maxSizeOf 2 2 invertedOptions) (Num (1 / 2)))
      (Num (minSizeOf openCascade invertedOptions))) \<and>
   detectFaces flatImage 2 2 openCascade [] invertedOptions = Some (Inr [])"
proof -
  note main = detectFaces_without_validation[where cascade = openCascade and features = "[]"
      and gray = flatImage and width = 2 and height = 2 and opts = invertedOptions]
  have wf: "cascade_wf openCascade []" by (rule cascade_wf_open)
  from main[THEN conjunct1] wf
  have quiet: "detectFaces flatImage 2 2 openCascade [] invertedOptions \<noteq> Some (Inl TypeError)"
    by blast
  have h: "1 < scaleFactorOf invertedOptions \<and> 0 < baseWindowWidth openCascade \<and>
    0 < baseWindowHeight openCascade \<and>
    jlt (jadd (maxSizeOf 2 2 invertedOptions) (Num (1 / 2)))
      (Num (minSizeOf openCascade invertedOptions))"
    by (simp add: scaleFactorOf_def maxSizeOf_def minSizeOf_def invertedOptions_def open_fields)
  from main[THEN conjunct2] h
  have empty: "detectFaces flatImage 2 2 openCascade [] invertedOptions = Some (Inr [])" by blast
  show ?thesis by (intro conjI wf quiet h empty)
qed






section \<open>The normalisation of a window\<close>

lemma tiny_fields:
  "baseWindowWidth tinyCascade = 3 / 10" "baseWindowHeight tinyCascade = 3 / 10"
  "stages tinyCascade = [rejectingStage]"
  by (simp_all add: tinyCascade_def)

lemma jround_tiny: "jround (3 / 10) = 0"
  by (simp add: jround_def)

lemma windowStep_0: "windowStep 0 = 2"
  by (simp add: windowStep_def)

lemma empty_window_variance: "windowVariance ii ii2 w x y 0 0 = NaN"
  by (simp add: windowVariance_def rectSum_def jsub_def)

lemma empty_window_stdDev: "windowStdDev ii ii2 w x y 0 0 = NaN"
  by (simp add: windowStdDev_def empty_window_variance)

lemma empty_window_invArea: "windowInvArea 0 0 = PInf"
  by (simp add: windowInvArea_def jinf_def)

lemma empty_window_feature: "evaluateFeature emptyFeature ii w x y s PInf NaN = NaN"
  by (simp add: evaluateFeature_def emptyFeature_def)

lemma empty_window_passes:
  "evaluateCascade tinyCascade [emptyFeature] ii ii2 w x y s 0 0 = Inr True"
  by (simp add: evaluateCascade_def tiny_fields empty_window_stdDev empty_window_invArea
        evaluateStage_def rejectingStage_def empty_window_feature)

lemma scan_tiny:
  "scanRows tinyCascade [emptyFeature] ii ii2 2 2 1 0 0 0 [] =
     Inr [emptyWindow 0 0, emptyWindow 2 0, emptyWindow 0 2, emptyWindow 2 2]"
  by (simp add: scanRows.simps scanCols.simps empty_window_passes windowStep_0 emptyWindow_def)

lemma loop_tiny:
  "scaleLoop tinyCascade [emptyFeature] ii ii2 2 2 2 0 (Num (1 / 2)) 1 [] =
     Some (Inr [emptyWindow 0 0, emptyWindow 2 0, emptyWindow 0 2, emptyWindow 2 2])"
  apply (subst scaleLoop.simps)
  apply (simp add: tiny_fields jround_tiny scan_tiny)
  apply (subst scaleLoop.simps)
  apply (simp add: tiny_fields)
  done

lemma empty_windows_disjoint: "computeIOU (emptyWindow x y) (emptyWindow x' y') = 0"
  by (simp add: computeIOU_def emptyWindow_def)

lemma empty_windows_kept:
  "nonMaximumSuppression [emptyWindow 0 0, emptyWindow 2 0, emptyWindow 0 2, emptyWindow 2 2] (3 / 10)
     = [emptyWindow 0 0, emptyWindow 2 0, emptyWindow 0 2, emptyWindow 2 2]"
proof -
  have "sortByArea [emptyWindow 0 0, emptyWindow 2 0, emptyWindow 0 2, emptyWindow 2 2]
      = [emptyWindow 0 0, emptyWindow 2 0, emptyWindow 0 2, emptyWindow 2 2]"
    by (simp add: sortByArea_def emptyWindow_def)
  then show ?thesis
    by (simp add: nonMaximumSuppression_greedy empty_windows_disjoint)
qed

lemma detect_tiny:
  "detectFaces flatImage 2 2 tinyCascade [emptyFeature] tinyOptions =
     Some (Inr [emptyWindow 0 0, emptyWindow 2 0, emptyWindow 0 2, emptyWindow 2 2])"
  by (simp add: detectFaces_unfold scaleFactorOf_def minSizeOf_def maxSizeOf_def tinyOptions_def
        tiny_fields loop_tiny empty_windows_kept)

lemma outside_window_variance: "windowVariance flatSums flatSquares 2 1 1 2 2 = NaN"
  by (simp add: windowVariance_def rectSum_def rd_def jsub_def flatSums_def flatSquares_def)

lemma outside_window_stdDev: "windowStdDev flatSums flatSquares 2 1 1 2 2 = NaN"
  by (simp add: windowStdDev_def outside_window_variance)

lemma outside_window_throws:
  "evaluateCascade guardedCascade [emptyFeature] flatSums flatSquares 2 1 1 1 2 2 = Inl TypeError"
  by (simp add: evaluateCascade_def guarded_fields outside_window_stdDev windowInvArea_def
        evaluateStage_def rejectingStage_def brokenStage_def evaluateFeature_def emptyFeature_def)

text \<open>
  Claim C4 (not met by the code as stated). The clamp \<open>max variance 1\<close> does not remove
  \<open>NaN\<close>: when the variance is \<open>NaN\<close>, so is \<open>stdDev\<close>, and the normalised feature value
  is \<open>NaN\<close>. The scan itself produces such a window: with a base window of 0.3 by 0.3, which
  rounds to 0 by 0, and \<open>minSize = 0\<close>, \<open>detectFaces\<close> evaluates windows without area; their
  mean is \<open>0 / 0\<close>, \<open>stdDev\<close> is \<open>NaN\<close> and \<open>invArea\<close> is infinite, the feature of
  Scenario A evaluates to \<open>NaN\<close> instead of 0, and the four windows are returned as
  detections. A direct call of \<open>evaluateCascade\<close> with a window that leaves the image has
  the same effect: on the flat 2 by 2 image the 2 by 2 window at \<open>(1, 1)\<close> has the variance
  \<open>NaN\<close>, the rejecting stage passes and the stage after it is evaluated.
\<close>

theorem evaluateCascade_normalisation_undefined:
  "jround (baseWindowWidth tinyCascade * 1) = 0 \<and>
   opt_minSize tinyOptions = Some 0 \<and>
   computeIntegralImage flatImage 2 2 = (flatSums, flatSquares) \<and>
   windowVariance flatSums flatSquares 2 0 0 0 0 = NaN \<and>
   windowStdDev flatSums flatSquares 2 0 0 0 0 = NaN \<and>
   windowInvArea 0 0 = PInf \<and>
   evaluateFeature emptyFeature flatSums 2 0 0 1 (windowInvArea 0 0)
     (windowStdDev flatSums flatSquares 2 0 0 0 0) = NaN \<and>
   evaluateCascade tinyCascade [emptyFeature] flatSums flatSquares 2 0 0 1 0 0 = Inr True \<and>
   detectFaces flatImage 2 2 tinyCascade [emptyFeature] tinyOptions =
     Some (Inr [emptyWindow 0 0, emptyWindow 2 0, emptyWindow 0 2, emptyWindow 2 2]) \<and>
   windowVariance flatSums flatSquares 2 1 1 2 2 = NaN \<and>
   windowStdDev flatSums flatSquares 2 1 1 2 2 = NaN \<and>
   evaluateCascade guardedCascade [emptyFeature] flatSums flatSquares 2 1 1 1 2 2 = Inl TypeError"
proof -
  have base: "jround (baseWindowWidth tinyCascade * 1) = 0"
    by (simp add: tiny_fields jround_tiny)
  have opt: "opt_minSize tinyOptions = Some 0"
    by (simp add: tinyOptions_def)
  have feat: "evaluateFeature emptyFeature flatSums 2 0 0 1 (windowInvArea 0 0)
     (windowStdDev flatSums flatSquares 2 0 0 0 0) = NaN"
    by (simp add: empty_window_stdDev empty_window_invArea empty_window_feature)
  show ?thesis
    by (intro conjI base opt flat_tables empty_window_variance empty_window_stdDev
          empty_window_invArea feat empty_window_passes detect_tiny outside_window_variance
          outside_window_stdDev outside_window_throws)
qed

text \<open>
  Claim C4 as amended. \<open>stdDev\<close> is determined by the variance of the window: the number
  \<open>sqrt (max variance 1)\<close> when the variance is a number, 1 when it is \<open>-Infinity\<close>, and
  \<open>Infinity\<close> or \<open>NaN\<close> when the variance is. For a window of positive size inside the
  image, on tables of finite entries, the variance is the number
  \<open>sqSum / area - mean * mean\<close> computed from the two rectangle sums, \<open>stdDev\<close> is the
  number \<open>sqrt (max variance 1) \<ge> 1\<close>, also for a flat window, and \<open>invArea\<close> is the
  number \<open>1 / area\<close>. On the tables of an image of natural intensities whose squares total
  at most \<open>2 ^ 24\<close>, so that the tables are exact, the two sums are those of the pixels of
  the window and of their squares. The result of \<open>evaluateCascade\<close> is true iff every
  stage passes, and when stage \<open>k\<close> is the first to fail the result is false after exactly
  \<open>k + 1\<close> calls of \<open>evaluateStage\<close>: no later stage is evaluated.
\<close>

theorem evaluateCascade_short_circuit:
  "windowStdDev ii ii2 imageWidth wx wy winW winH =
     (case windowVariance ii ii2 imageWidth wx wy winW winH of
        Num v \<Rightarrow> Num (sqrt (max v 1))
      | PInf \<Rightarrow> PInf
      | NInf \<Rightarrow> Num 1
      | NaN \<Rightarrow> NaN) \<and>
   (\<forall>height.
      length ii = imageWidth * height \<and> length ii2 = imageWidth * height \<and>
      list_all isFinite ii \<and> list_all isFinite ii2 \<and>
      0 \<le> wx \<and> 0 \<le> wy \<and> 0 < winW \<and> 0 < winH \<and>
      wx + winW \<le> int imageWidth \<and> wy + winH \<le> int height \<longrightarrow>
      (\<exists>s q. rectSum ii imageWidth wx wy winW winH = Num s \<and>
             rectSum ii2 imageWidth wx wy winW winH = Num q \<and>
             windowVariance ii ii2 imageWidth wx wy winW winH =
               Num (q / real_of_int (winW * winH)
                    - (s / real_of_int (winW * winH)) * (s / real_of_int (winW * winH))) \<and>
             windowStdDev ii ii2 imageWidth wx wy winW winH =
               Num (sqrt (max (q / real_of_int (winW * winH)
                    - (s / real_of_int (winW * winH)) * (s / real_of_int (winW * winH))) 1)) \<and>
             1 \<le> sqrt (max (q / real_of_int (winW * winH)
                    - (s / real_of_int (winW * winH)) * (s / real_of_int (winW * winH))) 1) \<and>
             windowInvArea winW winH = Num (1 / real_of_int (winW * winH)))) \<and>
   (\<forall>p height.
      length p = imageWidth * height \<and> sum_list (map (\<lambda>v. v * v) p) \<le> 2 ^ 24 \<and>
      computeIntegralImage (map (\<lambda>v. Num (real v)) p) imageWidth height = (ii, ii2) \<and>
      0 \<le> wx \<and> 0 \<le> wy \<and> 0 < winW \<and> 0 < winH \<and>
      wx + winW \<le> int imageWidth \<and> wy + winH \<le> int height \<longrightarrow>
      rectSum ii imageWidth wx wy winW winH =
        Num (real (\<Sum>b\<in>{nat wy..<nat (wy + winH)}. \<Sum>a\<in>{nat wx..<nat (wx + winW)}.
                     p ! (b * imageWidth + a))) \<and>
      rectSum ii2 imageWidth wx wy winW winH =
        Num (real (\<Sum>b\<in>{nat wy..<nat (wy + winH)}. \<Sum>a\<in>{nat wx..<nat (wx + winW)}.
                     p ! (b * imageWidth + a) * p ! (b * imageWidth + a))) \<and>
      windowVariance ii ii2 imageWidth wx wy winW winH =
        Num (varianceOf
               (real (\<Sum>b\<in>{nat wy..<nat (wy + winH)}. \<Sum>a\<in>{nat wx..<nat (wx + winW)}.
                        p ! (b * imageWidth + a)))
               (real (\<Sum>b\<in>{nat wy..<nat (wy + winH)}. \<Sum>a\<in>{nat wx..<nat (wx + winW)}.
                        p ! (b * imageWidth + a) * p ! (b * imageWidth + a)))
               (real_of_int (winW * winH))) \<and>
      windowStdDev ii ii2 imageWidth wx wy winW winH =
        Num (sqrt (max (varianceOf
               (real (\<Sum>b\<in>{nat wy..<nat (wy + winH)}. \<Sum>a\<in>{nat wx..<nat (wx + winW)}.
                        p ! (b * imageWidth + a)))
               (real (\<Sum>b\<in>{nat wy..<nat (wy + winH)}. \<Sum>a\<in>{nat wx..<nat (wx + winW)}.
                        p ! (b * imageWidth + a) * p ! (b * imageWidth + a)))
               (real_of_int (winW * winH))) 1))) \<and>
   (evaluateCascade cascade features ii ii2 imageWidth wx wy scale winW winH = Inr True \<longleftrightarrow>
      (\<forall>st\<in>set (stages cascade).
         evaluateStage st features ii imageWidth wx wy scale (windowInvArea winW winH)
           (windowStdDev ii ii2 imageWidth wx wy winW winH) = Inr True)) \<and>
   (\<forall>k<length (stages cascade).
      (\<forall>i<k. evaluateStage (stages cascade ! i) features ii imageWidth wx wy scale
                (windowInvArea winW winH) (windowStdDev ii ii2 imageWidth wx wy winW winH) = Inr True) \<and>
      evaluateStage (stages cascade ! k) features ii imageWidth wx wy scale
        (windowInvArea winW winH) (windowStdDev ii ii2 imageWidth wx wy winW winH) = Inr False \<longrightarrow>
      evaluateCascade cascade features ii ii2 imageWidth wx wy scale winW winH = Inr False \<and>
      stagesEvaluated cascade features ii ii2 imageWidth wx wy scale winW winH = Suc k)"
proof (intro conjI allI impI)
  show "windowStdDev ii ii2 imageWidth wx wy winW winH =
     (case windowVariance ii ii2 imageWidth wx wy winW winH of
        Num v \<Rightarrow> Num (sqrt (max v 1))
      | PInf \<Rightarrow> PInf
      | NInf \<Rightarrow> Num 1
      | NaN \<Rightarrow> NaN)"
    by (rule windowStdDev_cases)
next
  fix height
  assume h: "length ii = imageWidth * height \<and> length ii2 = imageWidth * height \<and>
      list_all isFinite ii \<and> list_all isFinite ii2 \<and>
      0 \<le> wx \<and> 0 \<le> wy \<and> 0 < winW \<and> 0 < winH \<and>
      wx + winW \<le> int imageWidth \<and> wy + winH \<le> int height"
  then have geo: "0 \<le> wx" "0 \<le> wy" "0 < winW" "0 < winH"
      "wx + winW \<le> int imageWidth" "wy + winH \<le> int height" by simp_all
  from h rectSum_finite[OF _ _ geo, of ii] obtain s where
    s: "rectSum ii imageWidth wx wy winW winH = Num s" by blast
  from h rectSum_finite[OF _ _ geo, of ii2] obtain q where
    q: "rectSum ii2 imageWidth wx wy winW winH = Num q" by blast
  have area: "winW * winH \<noteq> 0" using geo by simp
  let ?v = "q / real_of_int (winW * winH)
              - (s / real_of_int (winW * winH)) * (s / real_of_int (winW * winH))"
  have v: "windowVariance ii ii2 imageWidth wx wy winW winH = Num ?v"
    using windowVariance_Num[OF s q area] by (simp only: varianceOf_def)
  have sd: "windowStdDev ii ii2 imageWidth wx wy winW winH = Num (sqrt (max ?v 1))"
    by (rule windowStdDev_Num[OF v])
  have ge: "1 \<le> sqrt (max ?v 1)" by simp
  have ia: "windowInvArea winW winH = Num (1 / real_of_int (winW * winH))"
    by (rule windowInvArea_Num[OF area])
  from s q v sd ge ia
  show "\<exists>s q. rectSum ii imageWidth wx wy winW winH = Num s \<and>
             rectSum ii2 imageWidth wx wy winW winH = Num q \<and>
             windowVariance ii ii2 imageWidth wx wy winW winH =
               Num (q / real_of_int (winW * winH)
                    - (s / real_of_int (winW * winH)) * (s / real_of_int (winW * winH))) \<and>
             windowStdDev ii ii2 imageWidth wx wy winW winH =
               Num (sqrt (max (q / real_of_int (winW * winH)
                    - (s / real_of_int (winW * winH)) * (s / real_of_int (winW * winH))) 1)) \<and>
             1 \<le> sqrt (max (q / real_of_int (winW * winH)
                    - (s / real_of_int (winW * winH)) * (s / real_of_int (winW * winH))) 1) \<and>
             windowInvArea winW winH = Num (1 / real_of_int (winW * winH))"
    by blast
next
  fix p :: "nat list" and height
  assume h: "length p = imageWidth * height \<and> sum_list (map (\<lambda>v. v * v) p) \<le> 2 ^ 24 \<and>
      computeIntegralImage (map (\<lambda>v. Num (real v)) p) imageWidth height = (ii, ii2) \<and>
      0 \<le> wx \<and> 0 \<le> wy \<and> 0 < winW \<and> 0 < winH \<and>
      wx + winW \<le> int imageWidth \<and> wy + winH \<le> int height"
  then have len: "length p = imageWidth * height"
    and sq: "sum_list (map (\<lambda>v. v * v) p) \<le> 2 ^ 24"
    and geo: "0 \<le> wx" "0 \<le> wy" "0 < winW" "0 < winH"
      "wx + winW \<le> int imageWidth" "wy + winH \<le> int height" by simp_all
  have su: "sum_list p \<le> 2 ^ 24"
    using sum_list_le_squares[of p] sq by simp
  from nat_image_sums[OF len su] h
  have r1: "rows_inv (\<lambda>k. map real p ! k) imageWidth height height ii" by simp
  from nat_image_squares[OF len sq] h
  have r2: "rows_inv (\<lambda>k. map real p ! k * map real p ! k) imageWidth height height ii2" by simp
  note s = rectSum_nat_inside[OF len r1 geo]
  note q = rectSum_nat_squares_inside[OF len r2 geo]
  have area: "winW * winH \<noteq> 0" using geo by simp
  show "rectSum ii imageWidth wx wy winW winH =
        Num (real (\<Sum>b\<in>{nat wy..<nat (wy + winH)}. \<Sum>a\<in>{nat wx..<nat (wx + winW)}.
                     p ! (b * imageWidth + a)))" by (rule s)
  show "rectSum ii2 imageWidth wx wy winW winH =
        Num (real (\<Sum>b\<in>{nat wy..<nat (wy + winH)}. \<Sum>a\<in>{nat wx..<nat (wx + winW)}.
                     p ! (b * imageWidth + a) * p ! (b * imageWidth + a)))" by (rule q)
  show "windowVariance ii ii2 imageWidth wx wy winW winH =
        Num (varianceOf
               (real (\<Sum>b\<in>{nat wy..<nat (wy + winH)}. \<Sum>a\<in>{nat wx..<nat (wx + winW)}.
                        p ! (b * imageWidth + a)))
               (real (\<Sum>b\<in>{nat wy..<nat (wy + winH)}. \<Sum>a\<in>{nat wx..<nat (wx + winW)}.
                        p ! (b * imageWidth + a) * p ! (b * imageWidth + a)))
               (real_of_int (winW * winH)))"
    by (rule windowVariance_Num[OF s q area])
  show "windowStdDev ii ii2 imageWidth wx wy winW winH =
        Num (sqrt (max (varianceOf
               (real (\<Sum>b\<in>{nat wy..<nat (wy + winH)}. \<Sum>a\<in>{nat wx..<nat (wx + winW)}.
                        p ! (b * imageWidth + a)))
               (real (\<Sum>b\<in>{nat wy..<nat (wy + winH)}. \<Sum>a\<in>{nat wx..<nat (wx + winW)}.
                        p ! (b * imageWidth + a) * p ! (b * imageWidth + a)))
               (real_of_int (winW * winH))) 1))"
    by (rule windowStdDev_Num[OF windowVariance_Num[OF s q area]])
next
  show "evaluateCascade cascade features ii ii2 imageWidth wx wy scale winW winH = Inr True \<longleftrightarrow>
      (\<forall>st\<in>set (stages cascade).
         evaluateStage st features ii imageWidth wx wy scale (windowInvArea winW winH)
           (windowStdDev ii ii2 imageWidth wx wy winW winH) = Inr True)"
    by (simp add: evaluateCascade_def stageLoop_True_iff)
next
  fix k
  assume k: "k < length (stages cascade)"
    and h: "(\<forall>i<k. evaluateStage (stages cascade ! i) features ii imageWidth wx wy scale
                (windowInvArea winW winH) (windowStdDev ii ii2 imageWidth wx wy winW winH) = Inr True) \<and>
      evaluateStage (stages cascade ! k) features ii imageWidth wx wy scale
        (windowInvArea winW winH) (windowStdDev ii ii2 imageWidth wx wy winW winH) = Inr False"
  have loop: "stageLoop features ii imageWidth wx wy scale (windowInvArea winW winH)
      (windowStdDev ii ii2 imageWidth wx wy winW winH) (stages cascade) = (Inr False, Suc k)"
    using k h by (intro stageLoop_first_failure) auto
  show "evaluateCascade cascade features ii ii2 imageWidth wx wy scale winW winH = Inr False"
    by (simp add: evaluateCascade_def loop)
  show "stagesEvaluated cascade features ii ii2 imageWidth wx wy scale winW winH = Suc k"
    by (simp add: stagesEvaluated_def loop)
qed

theorem evaluateCascade_short_circuit_witness:
  "(length flatSums = 2 * 2 \<and> length flatSquares = 2 * 2 \<and>
    list_all isFinite flatSums \<and> list_all isFinite flatSquares) \<and>
   (length [5, 5, 5, 5 :: nat] = 2 * 2 \<and>
    sum_list (map (\<lambda>v. v * v) [5, 5, 5, 5 :: nat]) \<le> 2 ^ 24 \<and>
    computeIntegralImage (map (\<lambda>v. Num (real v)) [5, 5, 5, 5]) 2 2 = (flatSums, flatSquares)) \<and>
   rectSum flatSums 2 0 0 2 2 = Num 20 \<and>
   rectSum flatSquares 2 0 0 2 2 = Num 100 \<and>
   varianceOf 20 100 (real_of_int (2 * 2)) = 0 \<and>
   windowVariance flatSums flatSquares 2 0 0 2 2 = Num 0 \<and>
   windowStdDev flatSums flatSquares 2 0 0 2 2 = Num 1 \<and>
   windowInvArea 2 2 = Num (1 / 4) \<and>
   (0::nat) < length (stages guardedCascade) \<and>
   evaluateStage (stages guardedCascade ! 0) [emptyFeature] flatSums 2 0 0 1
     (windowInvArea 2 2) (windowStdDev flatSums flatSquares 2 0 0 2 2) = Inr False \<and>
   evaluateCascade guardedCascade [emptyFeature] flatSums flatSquares 2 0 0 1 2 2 = Inr False \<and>
   stagesEvaluated guardedCascade [emptyFeature] flatSums flatSquares 2 0 0 1 2 2 = 1"
proof -
  note main = evaluateCascade_short_circuit[where cascade = guardedCascade
      and features = "[emptyFeature]" and ii = flatSums and ?ii2.0 = flatSquares
      and imageWidth = 2 and wx = 0 and wy = 0 and scale = 1 and winW = 2 and winH = 2]
  have tables: "length flatSums = 2 * 2 \<and> length flatSquares = 2 * 2 \<and>
    list_all isFinite flatSums \<and> list_all isFinite flatSquares"
    by (simp add: flatSums_def flatSquares_def)
  have geo: "(0::int) \<le> 0 \<and> (0::int) \<le> 0 \<and> (0::int) < 2 \<and> (0::int) < 2 \<and>
      0 + 2 \<le> int 2 \<and> 0 + 2 \<le> int 2" by simp
  from main[THEN conjunct2, THEN conjunct1, rule_format, of 2] tables geo
  obtain s q where sq: "rectSum flatSums 2 0 0 2 2 = Num s" "rectSum flatSquares 2 0 0 2 2 = Num q"
    and v: "windowVariance flatSums flatSquares 2 0 0 2 2 =
       Num (q / real_of_int (2 * 2) - (s / real_of_int (2 * 2)) * (s / real_of_int (2 * 2)))"
    and sd: "windowStdDev flatSums flatSquares 2 0 0 2 2 =
       Num (sqrt (max (q / real_of_int (2 * 2)
              - (s / real_of_int (2 * 2)) * (s / real_of_int (2 * 2))) 1))"
    and ia: "windowInvArea 2 2 = Num (1 / real_of_int (2 * 2))"
    by blast
  have image: "length [5, 5, 5, 5 :: nat] = 2 * 2 \<and>
    sum_list (map (\<lambda>v. v * v) [5, 5, 5, 5 :: nat]) \<le> 2 ^ 24 \<and>
    computeIntegralImage (map (\<lambda>v. Num (real v)) [5, 5, 5, 5]) 2 2 = (flatSums, flatSquares)"
    using flat_tables by (simp add: flatImage_def)
  from main[THEN conjunct2, THEN conjunct2, THEN conjunct1, rule_format, of "[5, 5, 5, 5]" 2]
    image geo
  have pixels: "rectSum flatSums 2 0 0 2 2 =
        Num (real (\<Sum>b\<in>{nat 0..<nat (0 + 2)}. \<Sum>a\<in>{nat 0..<nat (0 + 2)}.
                     [5, 5, 5, 5] ! (b * 2 + a)))"
    and squares: "rectSum flatSquares 2 0 0 2 2 =
        Num (real (\<Sum>b\<in>{nat 0..<nat (0 + 2)}. \<Sum>a\<in>{nat 0..<nat (0 + 2)}.
                     [5, 5, 5, 5] ! (b * 2 + a) * [5, 5, 5, 5] ! (b * 2 + a)))"
    by blast+
  have s20: "rectSum flatSums 2 0 0 2 2 = Num 20"
    using pixels by (simp add: numeral_2_eq_2)
  have q100: "rectSum flatSquares 2 0 0 2 2 = Num 100"
    using squares by (simp add: numeral_2_eq_2)
  have s: "s = 20" and q: "q = 100" using sq s20 q100 by simp_all
  have var0: "varianceOf 20 100 (real_of_int (2 * 2)) = 0"
    by (simp add: varianceOf_def)
  have variance: "windowVariance flatSums flatSquares 2 0 0 2 2 = Num 0"
    using v unfolding s q by simp
  have stdDev: "windowStdDev flatSums flatSquares 2 0 0 2 2 = Num 1"
    using sd unfolding s q by simp
  have invArea: "windowInvArea 2 2 = Num (1 / 4)"
    using ia by simp
  have first: "evaluateStage (stages guardedCascade ! 0) [emptyFeature] flatSums 2 0 0 1
     (windowInvArea 2 2) (windowStdDev flatSums flatSquares 2 0 0 2 2) = Inr False"
    by (simp add: guarded_fields flat_window_rejected)
  have k: "(0::nat) < length (stages guardedCascade)" by (simp add: guarded_fields)
  from main[THEN conjunct2, THEN conjunct2, THEN conjunct2, THEN conjunct2, rule_format, OF k] first
  have cut: "evaluateCascade guardedCascade [emptyFeature] flatSums flatSquares 2 0 0 1 2 2 = Inr False \<and>
   stagesEvaluated guardedCascade [emptyFeature] flatSums flatSquares 2 0 0 1 2 2 = Suc 0"
    by simp
  have result: "evaluateCascade guardedCascade [emptyFeature] flatSums flatSquares 2 0 0 1 2 2 = Inr False"
    using cut by simp
  have count: "stagesEvaluated guardedCascade [emptyFeature] flatSums flatSquares 2 0 0 1 2 2 = 1"
    using cut by simp
  show ?thesis
    by (intro conjI tables[THEN conjunct1] tables[THEN conjunct2, THEN conjunct1]
          tables[THEN conjunct2, THEN conjunct2, THEN conjunct1]
          tables[THEN conjunct2, THEN conjunct2, THEN conjunct2]
          image[THEN conjunct1] image[THEN conjunct2, THEN conjunct1]
          image[THEN conjunct2, THEN conjunct2]
          s20 q100 var0 variance stdDev invArea k first result count)
qed

end
